theory Spec2Isabelle
  imports Main
begin

unbundle bit_operations_syntax

section \<open>Python values and exceptions used by \<open>proxybroker/providers.py\<close>\<close>

text \<open>
  Strings are lists of 8-bit characters; a page is modelled on the code points 0..255.
  Exceptions are values: every \<open>raise\<close> of the source, and every failing library call the
  source relies on, is the \<open>Inl\<close> branch of a result.
\<close>

datatype pyerr =
    BadStatusError
  | NetworkError
  | KeyError
  | ValueError
  | IndexError
  | UnboundLocalError

section \<open>The provider and its result set\<close>

text \<open>
  \<open>Provider.__init__\<close> stores \<open>proto\<close>, \<open>_max_tries\<close> and starts with
  \<open>_proxies = set()\<close>. A stored record is the tuple \<open>(host, port, proto)\<close>; host and
  port are the strings the extraction pattern captured, \<open>proto\<close> is the tuple of protocol
  names of the provider. The fields that only configure the HTTP client (\<open>url\<close>,
  \<open>_timeout\<close>, \<open>_session\<close>, \<open>_cookies\<close>, the semaphore, the loop) do not occur in the
  functions studied here.
\<close>

type_synonym candidate = "string \<times> string"
type_synonym proxy_record = "string \<times> string \<times> string list"

record provider =
  proto :: "string list"
  max_tries :: int
  proxies :: "proxy_record set"

definition Provider_init :: "string list \<Rightarrow> int \<Rightarrow> provider" where
  "Provider_init pr mt = \<lparr>proto = pr, max_tries = mt, proxies = {}\<rparr>"

text \<open>
  The \<open>proxies\<close> setter:
  \<^verbatim>\<open>new = [(host, port, self.proto) for host, port in new if port]\<close>,
  \<^verbatim>\<open>self._proxies.update(new)\<close>. A port string is falsy exactly when it is empty.
\<close>

definition proxies_setter ::
  "'a provider_scheme \<Rightarrow> candidate list \<Rightarrow> 'a provider_scheme" where
  "proxies_setter self new =
     (let new' = [(host, port, proto self). (host, port) \<leftarrow> new, port \<noteq> []]
      in self\<lparr>proxies := proxies self \<union> set new'\<rparr>)"

section \<open>The HTTP collaborator\<close>

text \<open>
  A page request is the argument list of \<open>self._session.request\<close>: method (the field
  \<open>meth\<close>), URL and the optional form data (\<open>headers\<close> is \<open>None\<close> at every call of
  this file). What one
  attempt meets is either an exception raised by the client before any text was read
  (time-out, connection error, decoding error), or a response with a status and a body.

  The world holds the outcomes of all attempts in the order in which they are issued,
  the list of requests issued so far, and the lines
  \<^verbatim>\<open>log.debug('%s is failed. Error: %r;' % (url, e))\<close> written by \<open>_get\<close>.
\<close>

record request =
  meth :: string
  url :: string
  data :: "(string \<times> string) list"

datatype attempt = Raised pyerr | Response int string

record world =
  responses :: "nat \<Rightarrow> attempt"
  issued :: "request list"
  failed :: "(request \<times> pyerr) list"

definition session_request :: "world \<Rightarrow> request \<Rightarrow> attempt \<times> world" where
  "session_request w req =
     (responses w (length (issued w)), w\<lparr>issued := issued w @ [req]\<rparr>)"

definition log_failed :: "world \<Rightarrow> request \<Rightarrow> pyerr \<Rightarrow> world" where
  "log_failed w req e = w\<lparr>failed := failed w @ [(req, e)]\<rparr>"

section \<open>The fetch engine: \<open>Provider._get\<close> and \<open>Provider.get\<close>\<close>

text \<open>
  A leading underscore of a Python name cannot start an Isabelle name:
  \<open>_get\<close> is \<open>Provider_u_get\<close>, \<open>_pipe\<close> is \<open>Provider_u_pipe\<close>, and so on.

  \<open>_get\<close> sets \<open>page = ''\<close>, then inside \<open>try\<close> issues the request, assigns
  \<open>page = await resp.text()\<close> and only then raises \<open>BadStatusError\<close> when the status is
  not 200. The handler \<open>except Exception\<close> logs the failure and leaves \<open>page\<close> as it is;
  \<open>return page\<close> follows the handler.
\<close>

definition Provider_u_get :: "world \<Rightarrow> request \<Rightarrow> string \<times> world" where
  "Provider_u_get w req =
     (let page = [];
          (a, w) = session_request w req
      in case a of
           Raised e \<Rightarrow> (page, log_failed w req e)
         | Response status body \<Rightarrow>
             (let page = body
              in if status \<noteq> 200 then (page, log_failed w req BadStatusError)
                 else (page, w)))"

text \<open>
  \<open>get\<close> is \<^verbatim>\<open>for _ in range(self._max_tries): page = await self._get(...);
  if page: break\<close> followed by \<open>return page\<close>. The local \<open>page\<close> is unbound until the
  first iteration has run: the loop carries it as an option, and returning an unbound
  local raises \<open>UnboundLocalError\<close>.
\<close>

fun get_loop :: "nat \<Rightarrow> world \<Rightarrow> request \<Rightarrow> string option \<Rightarrow> string option \<times> world" where
  "get_loop 0 w req page = (page, w)"
| "get_loop (Suc n) w req page =
     (let (p, w) = Provider_u_get w req
      in if p \<noteq> [] then (Some p, w) else get_loop n w req (Some p))"

definition Provider_get ::
  "'a provider_scheme \<Rightarrow> world \<Rightarrow> request \<Rightarrow> (pyerr + string) \<times> world" where
  "Provider_get self w req =
     (case get_loop (nat (max_tries self)) w req None of
        (None, w) \<Rightarrow> (Inl UnboundLocalError, w)
      | (Some page, w) \<Rightarrow> (Inr page, w))"

text \<open>
  Two readings of the world used to state properties: the text \<open>_get\<close> returns for an
  outcome, and the outcome that the \<open>k\<close>-th attempt from now on will meet.
\<close>

definition attempt_text :: "attempt \<Rightarrow> string" where
  "attempt_text a = (case a of Raised e \<Rightarrow> [] | Response status body \<Rightarrow> body)"

definition next_attempt :: "world \<Rightarrow> nat \<Rightarrow> attempt" where
  "next_attempt w k = responses w (length (issued w) + k)"

section \<open>Python string and integer helpers\<close>

text \<open>
  Character classes of the \<open>re\<close> module on the code points 0..255 of a \<open>str\<close> pattern:
  \<open>[a-z]\<close>, \<open>\d\<close> (the decimal digits; no other code point below 256 is one) and
  \<open>\w\<close> (alphanumerics and the underscore, which below 256 includes the Latin-1
  letters and the characters \<open>\<^verbatim>\<open>0xAA 0xB2 0xB3 0xB5 0xB9 0xBA 0xBC-0xBE\<close>\<close>).
\<close>

definition in_range :: "char \<Rightarrow> nat \<Rightarrow> nat \<Rightarrow> bool" where
  "in_range c lo hi = (lo \<le> of_char c \<and> of_char c \<le> hi)"

definition is_lower :: "char \<Rightarrow> bool" where
  "is_lower c = in_range c 0x61 0x7A"

definition is_digit :: "char \<Rightarrow> bool" where
  "is_digit c = in_range c 0x30 0x39"

definition is_word :: "char \<Rightarrow> bool" where
  "is_word c =
     (in_range c 0x30 0x39 \<or> in_range c 0x41 0x5A \<or> c = CHR ''_'' \<or> in_range c 0x61 0x7A
      \<or> c = CHR 0xAA \<or> in_range c 0xB2 0xB3 \<or> c = CHR 0xB5 \<or> in_range c 0xB9 0xBA
      \<or> in_range c 0xBC 0xBE \<or> in_range c 0xC0 0xD6 \<or> in_range c 0xD8 0xF6
      \<or> in_range c 0xF8 0xFF)"

text \<open>
  \<open>int(s)\<close> for a string \<open>s\<close> captured by a class of lower-case letters, digits and
  \<open>^\<close> (no sign, blank or underscore can occur in it): the decimal value when \<open>s\<close> is a
  non-empty string of digits, \<open>ValueError\<close> otherwise. The limit that recent
  interpreters put on the number of digits of a conversion between \<open>int\<close> and \<open>str\<close>
  (a setting of the interpreter, 4300 digits by default) is not modelled.
\<close>

definition digit_val :: "char \<Rightarrow> int" where
  "digit_val c = int (of_char c) - 48"

definition py_int :: "string \<Rightarrow> pyerr + int" where
  "py_int s =
     (if s \<noteq> [] \<and> list_all is_digit s
      then Inr (foldl (\<lambda>n c. 10 * n + digit_val c) 0 s)
      else Inl ValueError)"

text \<open>\<open>str(n)\<close> of an integer: its decimal digits, with a minus sign when negative.\<close>

fun str_nat :: "nat \<Rightarrow> string" where
  "str_nat n =
     (if n < 10 then [''0123456789'' ! n]
      else str_nat (n div 10) @ [''0123456789'' ! (n mod 10)])"

declare str_nat.simps [simp del]

definition py_str :: "int \<Rightarrow> string" where
  "py_str i = (if i < 0 then CHR ''-'' # str_nat (nat (- i)) else str_nat (nat i))"

text \<open>
  \<open>s.split(sep)\<close> for a one-character separator (the result is never empty) and
  \<open>s.strip(chars)\<close>.
\<close>

fun py_split :: "char \<Rightarrow> string \<Rightarrow> string list" where
  "py_split sep [] = [[]]"
| "py_split sep (c # cs) =
     (if c = sep then [] # py_split sep cs
      else (case py_split sep cs of
              [] \<Rightarrow> [[c]]
            | p # ps \<Rightarrow> (c # p) # ps))"

definition py_strip :: "string \<Rightarrow> string \<Rightarrow> string" where
  "py_strip chars s =
     rev (dropWhile (\<lambda>c. c \<in> set chars) (rev (dropWhile (\<lambda>c. c \<in> set chars) s)))"

section \<open>Scheme A: \<open>Xseo_in\<close> and \<open>Nntime_com\<close>\<close>

text \<open>
  \<^verbatim>\<open>re.findall(r'\b(?P<char>[a-z])=(?P<num>\d);', page)\<close>. A match is four characters
  long: a lower-case letter at a word boundary (the character before it, if any, is not a
  word character), \<open>=\<close>, a digit, \<open>;\<close>. The scan is from left to right, matches do not
  overlap, and after a match the previous character is \<open>;\<close>. The flag says whether the
  character before the current position is a word character.
\<close>

fun findall_expCharNum :: "bool \<Rightarrow> string \<Rightarrow> (char \<times> string) list" where
  "findall_expCharNum prev_word (c # e # d # t # rest) =
     (if \<not> prev_word \<and> is_lower c \<and> e = CHR ''='' \<and> is_digit d \<and> t = CHR '';''
      then (c, [d]) # findall_expCharNum False rest
      else findall_expCharNum (is_word c) (e # d # t # rest))"
| "findall_expCharNum prev_word _ = []"

text \<open>
  \<^verbatim>\<open>self.charEqNum = {char: i for char, i in re.findall(expCharNum, page)}\<close>: a fresh
  dictionary per page; a later definition of a letter replaces an earlier one, so the
  lookup finds the last pair with the key.
\<close>

definition dict_of :: "('k \<times> 'v) list \<Rightarrow> ('k \<rightharpoonup> 'v)" where
  "dict_of kvs = map_of (rev kvs)"

text \<open>
  \<open>char_js_port_to_num\<close> (the same text in both classes):
  \<^verbatim>\<open>''.join([self.charEqNum[ch] for ch in chars if ch != '+'])\<close>.
  A letter without a definition raises \<open>KeyError\<close>.
\<close>

fun char_js_port_to_num :: "(char \<rightharpoonup> string) \<Rightarrow> string \<Rightarrow> pyerr + string" where
  "char_js_port_to_num charEqNum [] = Inr []"
| "char_js_port_to_num charEqNum (ch # chars) =
     (if ch \<noteq> CHR ''+'' then
        (case charEqNum ch of
           None \<Rightarrow> Inl KeyError
         | Some d \<Rightarrow>
             (case char_js_port_to_num charEqNum chars of
                Inl e \<Rightarrow> Inl e
              | Inr num \<Rightarrow> Inr (d @ num)))
      else char_js_port_to_num charEqNum chars)"

text \<open>
  The expression pattern is \<^verbatim>\<open>\(""\+(?P<chars>[a-z+]+)\)\<close> for \<open>Xseo_in\<close> and
  \<^verbatim>\<open>\(":"\+(?P<chars>[a-z+]+)\)\<close> for \<open>Nntime_com\<close>: a literal opening, the longest run
  of lower-case letters and \<open>+\<close>, and \<open>)\<close>. The run is followed by a character outside
  its class or by the end of the text, so giving back characters of the run never helps:
  the pattern matches at a position exactly when the longest run is not empty and is
  followed by \<open>)\<close>. The result is the group \<open>chars\<close> and the text after the match.
\<close>

definition is_chars :: "char \<Rightarrow> bool" where
  "is_chars c = (is_lower c \<or> c = CHR ''+'')"

definition match_expPortOnJS :: "string \<Rightarrow> string \<Rightarrow> (string \<times> string) option" where
  "match_expPortOnJS opening s =
     (if take (length opening) s = opening then
        (let s1 = drop (length opening) s;
             chars = takeWhile is_chars s1
         in if chars \<noteq> [] then
              (case dropWhile is_chars s1 of
                 [] \<Rightarrow> None
               | r # rest \<Rightarrow> if r = CHR '')'' then Some (chars, rest) else None)
            else None)
      else None)"

lemma match_expPortOnJS_shorter:
  "match_expPortOnJS opening s = Some (chars, rest) \<Longrightarrow> length rest < length s"
proof -
  assume m: "match_expPortOnJS opening s = Some (chars, rest)"
  let ?s1 = "drop (length opening) s"
  from m obtain r where "dropWhile is_chars ?s1 = r # rest"
    by (auto simp: match_expPortOnJS_def Let_def split: if_splits list.splits)
  then have "length rest < length (dropWhile is_chars ?s1)" by simp
  also have "\<dots> \<le> length ?s1" by (rule length_dropWhile_le)
  also have "\<dots> \<le> length s" by simp
  finally show ?thesis .
qed

text \<open>
  \<^verbatim>\<open>re.sub(expPortOnJS, self.char_js_port_to_num, page)\<close>: each match, from left to right
  and without overlap, is replaced by what the callback returns for it; every other
  character is copied. An exception of the callback ends the substitution.
\<close>

function sub_expPortOnJS ::
  "string \<Rightarrow> (char \<rightharpoonup> string) \<Rightarrow> string \<Rightarrow> pyerr + string" where
  "sub_expPortOnJS opening charEqNum [] = Inr []"
| "sub_expPortOnJS opening charEqNum (c # cs) =
     (case match_expPortOnJS opening (c # cs) of
        Some (chars, rest) \<Rightarrow>
          (case char_js_port_to_num charEqNum chars of
             Inl e \<Rightarrow> Inl e
           | Inr num \<Rightarrow>
               (case sub_expPortOnJS opening charEqNum rest of
                  Inl e \<Rightarrow> Inl e
                | Inr out \<Rightarrow> Inr (num @ out)))
      | None \<Rightarrow>
          (case sub_expPortOnJS opening charEqNum cs of
             Inl e \<Rightarrow> Inl e
           | Inr out \<Rightarrow> Inr (c # out)))"
  by pat_completeness auto
termination
  by (relation "measure (\<lambda>(opening, charEqNum, s). length s)")
     (auto dest: match_expPortOnJS_shorter)

text \<open>
  \<open>find_proxies\<close> of the two classes. The last step, \<open>self._find_proxies(page)\<close>, is
  \<open>self._pattern.findall\<close> on the rewritten page; the scan for addresses is a parameter
  (\<open>IPPortPatternGlobal\<close>, imported from \<open>utils\<close>, for \<open>Xseo_in\<close>; the pattern of the
  class for \<open>Nntime_com\<close>). The functions \<open>*_deobfuscate\<close> are the statements of
  \<open>find_proxies\<close> before that last step: they return the value of the local \<open>page\<close>
  after \<open>re.sub\<close>.
\<close>

definition Xseo_in_deobfuscate :: "string \<Rightarrow> pyerr + string" where
  \<open>Xseo_in_deobfuscate page =
     (let charEqNum = dict_of (findall_expCharNum False page)
      in sub_expPortOnJS ''(""+'' charEqNum page)\<close>

definition Xseo_in_find_proxies ::
  "(string \<Rightarrow> candidate list) \<Rightarrow> string \<Rightarrow> pyerr + candidate list" where
  "Xseo_in_find_proxies pattern_findall page =
     (case Xseo_in_deobfuscate page of
        Inl e \<Rightarrow> Inl e
      | Inr page \<Rightarrow> Inr (pattern_findall page))"

definition Nntime_com_deobfuscate :: "string \<Rightarrow> pyerr + string" where
  \<open>Nntime_com_deobfuscate page =
     (let charEqNum = dict_of (findall_expCharNum False page)
      in sub_expPortOnJS ''(":"+'' charEqNum page)\<close>

definition Nntime_com_find_proxies ::
  "(string \<Rightarrow> candidate list) \<Rightarrow> string \<Rightarrow> pyerr + candidate list" where
  "Nntime_com_find_proxies pattern_findall page =
     (case Nntime_com_deobfuscate page of
        Inl e \<Rightarrow> Inl e
      | Inr page \<Rightarrow> Inr (pattern_findall page))"

section \<open>Scheme B: \<open>Spys_ru\<close>\<close>

text \<open>
  \<open>charEqNum\<close> of \<open>Spys_ru\<close> is a dictionary from token names to integers. It is
  created once, as a class attribute, and \<open>find_proxies\<close> only ever stores into it: what
  one page defined is still there when the next page is read.
\<close>

record spys_ru = provider +
  charEqNum :: "string \<rightharpoonup> int"

definition Spys_ru_init :: "string list \<Rightarrow> int \<Rightarrow> spys_ru" where
  "Spys_ru_init pr mt =
     \<lparr>proto = pr, max_tries = mt, proxies = {}, charEqNum = Map.empty\<rparr>"

text \<open>
  \<^verbatim>\<open>re.findall(r'[>;]{1}(?P<char>[a-z\d]{4,})=(?P<num>[a-z\d\^]+)', page)\<close>.
  At a position the pattern needs \<open>>\<close> or \<open>;\<close>, then the longest run of lower-case
  letters and digits, which must have at least four characters and be followed by \<open>=\<close>,
  then the longest non-empty run of lower-case letters, digits and \<open>^\<close>. Both runs end
  before a character outside their class, so a shorter run never matches where the
  longest does not.
\<close>

definition is_name :: "char \<Rightarrow> bool" where
  "is_name c = (is_lower c \<or> is_digit c)"

definition is_num :: "char \<Rightarrow> bool" where
  "is_num c = (is_lower c \<or> is_digit c \<or> c = CHR ''^'')"

definition match_spys_expCharNum :: "string \<Rightarrow> ((string \<times> string) \<times> string) option" where
  "match_spys_expCharNum s =
     (case s of
        [] \<Rightarrow> None
      | c # s1 \<Rightarrow>
          if c = CHR ''>'' \<or> c = CHR '';'' then
            (let char = takeWhile is_name s1
             in if 4 \<le> length char then
                  (case dropWhile is_name s1 of
                     [] \<Rightarrow> None
                   | e # s2 \<Rightarrow>
                       if e = CHR ''='' then
                         (let num = takeWhile is_num s2
                          in if num \<noteq> [] then Some ((char, num), dropWhile is_num s2)
                             else None)
                       else None)
                else None)
          else None)"

lemma match_spys_expCharNum_shorter:
  "match_spys_expCharNum s = Some (g, rest) \<Longrightarrow> length rest < length s"
proof -
  assume m: "match_spys_expCharNum s = Some (g, rest)"
  from m obtain c s1 where s: "s = c # s1"
    by (cases s) (auto simp: match_spys_expCharNum_def)
  from m s obtain e s2 where d: "dropWhile is_name s1 = e # s2" and r: "rest = dropWhile is_num s2"
    by (auto simp: match_spys_expCharNum_def Let_def split: if_splits list.splits)
  have "length rest \<le> length s2" using r by (simp add: length_dropWhile_le)
  also have "\<dots> < length (dropWhile is_name s1)" using d by simp
  also have "\<dots> \<le> length s1" by (rule length_dropWhile_le)
  finally show ?thesis using s by simp
qed

function findall_spys_expCharNum :: "string \<Rightarrow> (string \<times> string) list" where
  "findall_spys_expCharNum [] = []"
| "findall_spys_expCharNum (c # cs) =
     (case match_spys_expCharNum (c # cs) of
        Some (g, rest) \<Rightarrow> g # findall_spys_expCharNum rest
      | None \<Rightarrow> findall_spys_expCharNum cs)"
  by pat_completeness auto
termination
  by (relation "measure length") (auto dest: match_spys_expCharNum_shorter)

text \<open>
  The loop of \<open>find_proxies\<close> over the definitions, in the order of the page:
  \<^verbatim>\<open>if '^' in num: digit, tochar = num.split('^');
  num = int(digit) ^ self.charEqNum[tochar]\<close>, then
  \<^verbatim>\<open>self.charEqNum[char] = int(num)\<close>. Unpacking anything but two parts raises
  \<open>ValueError\<close>, as does \<open>int\<close> of a string that is not a number; a token that was not
  defined before raises \<open>KeyError\<close>. What was stored before the exception stays stored.
\<close>

fun resolve_tokens ::
  "(string \<rightharpoonup> int) \<Rightarrow> (string \<times> string) list \<Rightarrow> (pyerr + unit) \<times> (string \<rightharpoonup> int)" where
  "resolve_tokens tbl [] = (Inr (), tbl)"
| "resolve_tokens tbl ((char, num) # res) =
     (if CHR ''^'' \<in> set num then
        (case py_split CHR ''^'' num of
           [digit, tochar] \<Rightarrow>
             (case py_int digit of
                Inl e \<Rightarrow> (Inl e, tbl)
              | Inr d \<Rightarrow>
                  (case tbl tochar of
                     None \<Rightarrow> (Inl KeyError, tbl)
                   | Some v \<Rightarrow> resolve_tokens (tbl(char \<mapsto> d XOR v)) res))
         | _ \<Rightarrow> (Inl ValueError, tbl))
      else
        (case py_int num of
           Inl e \<Rightarrow> (Inl e, tbl)
         | Inr n \<Rightarrow> resolve_tokens (tbl(char \<mapsto> n)) res))"

text \<open>
  \<open>Spys_ru.char_js_port_to_num\<close>: the match is split at \<open>+\<close>, the first part (empty) is
  skipped, and each other part, stripped of parentheses, must split at \<open>^\<close> into two
  token names; the decimal strings of the XOR of their values are concatenated.
\<close>

fun xor_pairs :: "(string \<rightharpoonup> int) \<Rightarrow> string list \<Rightarrow> string \<Rightarrow> pyerr + string" where
  "xor_pairs tbl [] num = Inr num"
| "xor_pairs tbl (numOfChars # chars) num =
     (case py_split CHR ''^'' (py_strip ''()'' numOfChars) of
        [var1, var2] \<Rightarrow>
          (case tbl var1 of
             None \<Rightarrow> Inl KeyError
           | Some a \<Rightarrow>
               (case tbl var2 of
                  None \<Rightarrow> Inl KeyError
                | Some b \<Rightarrow> xor_pairs tbl chars (num @ py_str (a XOR b))))
      | _ \<Rightarrow> Inl ValueError)"

definition Spys_ru_char_js_port_to_num :: "(string \<rightharpoonup> int) \<Rightarrow> string \<Rightarrow> pyerr + string" where
  "Spys_ru_char_js_port_to_num tbl js_port_code =
     (let chars = py_split CHR ''+'' js_port_code
      in xor_pairs tbl (tl chars) [])"

text \<open>
  The expression pattern \<^verbatim>\<open>(?P<js_port_code>(?:\+\([a-z0-9^+]+\))+)\<close>: one or more
  groups, each \<open>+(\<close>, the longest non-empty run of lower-case letters, digits, \<open>^\<close> and
  \<open>+\<close>, and \<open>)\<close>; as many groups as there are in a row.
\<close>

definition is_code :: "char \<Rightarrow> bool" where
  "is_code c = (is_lower c \<or> is_digit c \<or> c = CHR ''^'' \<or> c = CHR ''+'')"

definition match_js_group :: "string \<Rightarrow> (string \<times> string) option" where
  "match_js_group s =
     (case s of
        p # q # s1 \<Rightarrow>
          if p = CHR ''+'' \<and> q = CHR ''('' then
            (let body = takeWhile is_code s1
             in if body \<noteq> [] then
                  (case dropWhile is_code s1 of
                     [] \<Rightarrow> None
                   | r # rest \<Rightarrow>
                       if r = CHR '')'' then Some (''+('' @ body @ '')'', rest) else None)
                else None)
          else None
      | _ \<Rightarrow> None)"

lemma match_js_group_shorter:
  "match_js_group s = Some (m, rest) \<Longrightarrow> length rest < length s"
proof -
  assume m: "match_js_group s = Some (m, rest)"
  from m obtain p q s1 where s: "s = p # q # s1"
    by (auto simp: match_js_group_def split: list.splits)
  from m s obtain r where d: "dropWhile is_code s1 = r # rest"
    by (auto simp: match_js_group_def Let_def split: if_splits list.splits)
  have "length rest < length (dropWhile is_code s1)" using d by simp
  also have "\<dots> \<le> length s1" by (rule length_dropWhile_le)
  finally show ?thesis using s by simp
qed

function match_js_port_code :: "string \<Rightarrow> (string \<times> string) option" where
  "match_js_port_code s =
     (case match_js_group s of
        None \<Rightarrow> None
      | Some (m, rest) \<Rightarrow>
          (case match_js_port_code rest of
             None \<Rightarrow> Some (m, rest)
           | Some (m', rest') \<Rightarrow> Some (m @ m', rest')))"
  by pat_completeness auto
termination
  by (relation "measure length") (auto dest: match_js_group_shorter)

declare match_js_port_code.simps [simp del]

lemma match_js_port_code_shorter:
  "match_js_port_code s = Some (m, rest) \<Longrightarrow> length rest < length s"
proof (induction s arbitrary: m rest rule: match_js_port_code.induct)
  case (1 s)
  from "1.prems" obtain m1 r1 where g: "match_js_group s = Some (m1, r1)"
    by (subst (asm) match_js_port_code.simps) (auto split: option.splits)
  have l1: "length r1 < length s" using g by (rule match_js_group_shorter)
  show ?case
  proof (cases "match_js_port_code r1")
    case None
    with "1.prems" g have "rest = r1"
      by (subst (asm) match_js_port_code.simps) simp
    with l1 show ?thesis by simp
  next
    case (Some a)
    obtain m2 r2 where a: "a = (m2, r2)" by (cases a)
    with "1.prems" g Some have "rest = r2"
      by (subst (asm) match_js_port_code.simps) simp
    moreover have "length r2 < length r1"
      using "1.IH" [OF g refl] Some a by simp
    ultimately show ?thesis using l1 by simp
  qed
qed

function sub_spys_expPortOnJS :: "(string \<rightharpoonup> int) \<Rightarrow> string \<Rightarrow> pyerr + string" where
  "sub_spys_expPortOnJS tbl [] = Inr []"
| "sub_spys_expPortOnJS tbl (c # cs) =
     (case match_js_port_code (c # cs) of
        Some (js_port_code, rest) \<Rightarrow>
          (case Spys_ru_char_js_port_to_num tbl js_port_code of
             Inl e \<Rightarrow> Inl e
           | Inr num \<Rightarrow>
               (case sub_spys_expPortOnJS tbl rest of
                  Inl e \<Rightarrow> Inl e
                | Inr out \<Rightarrow> Inr (num @ out)))
      | None \<Rightarrow>
          (case sub_spys_expPortOnJS tbl cs of
             Inl e \<Rightarrow> Inl e
           | Inr out \<Rightarrow> Inr (c # out)))"
  by pat_completeness auto
termination
  by (relation "measure (\<lambda>(tbl, s). length s)") (auto dest: match_js_port_code_shorter)

text \<open>
  \<open>Spys_ru.find_proxies\<close>. \<open>Spys_ru_deobfuscate\<close> is the function up to and including
  \<open>re.sub\<close>: it returns the rewritten page and the dictionary as the loop left it.
\<close>

definition Spys_ru_deobfuscate ::
  "(string \<rightharpoonup> int) \<Rightarrow> string \<Rightarrow> (pyerr + string) \<times> (string \<rightharpoonup> int)" where
  "Spys_ru_deobfuscate tbl page =
     (let res = findall_spys_expCharNum page
      in case resolve_tokens tbl res of
           (Inl e, tbl) \<Rightarrow> (Inl e, tbl)
         | (Inr u, tbl) \<Rightarrow> (sub_spys_expPortOnJS tbl page, tbl))"

definition Spys_ru_find_proxies ::
  "(string \<Rightarrow> candidate list) \<Rightarrow> spys_ru \<Rightarrow> string \<Rightarrow> (pyerr + candidate list) \<times> spys_ru" where
  "Spys_ru_find_proxies pattern_findall self page =
     (case Spys_ru_deobfuscate (charEqNum self) page of
        (Inl e, tbl) \<Rightarrow> (Inl e, self\<lparr>charEqNum := tbl\<rparr>)
      | (Inr page, tbl) \<Rightarrow> (Inr (pattern_findall page), self\<lparr>charEqNum := tbl\<rparr>))"

section \<open>Pages of a provider: \<open>_find_on_page\<close>, \<open>_find_on_pages\<close>, \<open>get_proxies\<close>\<close>

text \<open>
  \<open>_find_on_page\<close> fetches one page with \<open>get\<close>; an empty page ends it. Otherwise
  \<open>self.find_proxies(page)\<close> runs inside \<open>try\<close>: any exception is logged and stands for
  no candidates. The candidates are merged through the \<open>proxies\<close> setter. The method
  \<open>find_proxies\<close> is the one of the class of \<open>self\<close>; it is passed as an argument, and
  returns the provider because \<open>Spys_ru.find_proxies\<close> stores into it.
\<close>

definition Provider_u_find_on_page ::
  "('a provider_scheme \<Rightarrow> string \<Rightarrow> (pyerr + candidate list) \<times> 'a provider_scheme) \<Rightarrow>
   'a provider_scheme \<Rightarrow> world \<Rightarrow> request \<Rightarrow> (pyerr + unit) \<times> 'a provider_scheme \<times> world" where
  "Provider_u_find_on_page find_proxies self w req =
     (case Provider_get self w req of
        (Inl e, w) \<Rightarrow> (Inl e, self, w)
      | (Inr page, w) \<Rightarrow>
          if page = [] then (Inr (), self, w)
          else
            (case find_proxies self page of
               (Inl e, self) \<Rightarrow> (Inr (), proxies_setter self [], w)
             | (Inr received, self) \<Rightarrow> (Inr (), proxies_setter self received, w)))"

text \<open>
  \<open>_find_on_pages\<close> returns at once on an empty list. A list of URL strings loses its
  duplicates (\<open>set(urls)\<close>); a list of keyword dictionaries is taken as it is. One task
  per entry is handed to \<open>asyncio.gather\<close>. The tasks are run here one after the other
  in the order of the list, which is one of the schedules of the event loop, and the first
  exception of a task is the exception of \<open>gather\<close>.
\<close>

datatype url_arg = Url string | Kwargs request

definition is_dict :: "url_arg \<Rightarrow> bool" where
  "is_dict u = (case u of Url s \<Rightarrow> False | Kwargs r \<Rightarrow> True)"

definition request_of :: "url_arg \<Rightarrow> request" where
  "request_of u =
     (case u of
        Url s \<Rightarrow> \<lparr>meth = ''GET'', url = s, data = []\<rparr>
      | Kwargs r \<Rightarrow> r)"

fun gather_find_on_page ::
  "('a provider_scheme \<Rightarrow> string \<Rightarrow> (pyerr + candidate list) \<times> 'a provider_scheme) \<Rightarrow>
   'a provider_scheme \<Rightarrow> world \<Rightarrow> url_arg list \<Rightarrow> (pyerr + unit) \<times> 'a provider_scheme \<times> world" where
  "gather_find_on_page find_proxies self w [] = (Inr (), self, w)"
| "gather_find_on_page find_proxies self w (u # urls) =
     (case Provider_u_find_on_page find_proxies self w (request_of u) of
        (Inl e, self, w) \<Rightarrow> (Inl e, self, w)
      | (Inr done, self, w) \<Rightarrow> gather_find_on_page find_proxies self w urls)"

definition Provider_u_find_on_pages ::
  "('a provider_scheme \<Rightarrow> string \<Rightarrow> (pyerr + candidate list) \<times> 'a provider_scheme) \<Rightarrow>
   'a provider_scheme \<Rightarrow> world \<Rightarrow> url_arg list \<Rightarrow> (pyerr + unit) \<times> 'a provider_scheme \<times> world" where
  "Provider_u_find_on_pages find_proxies self w urls =
     (case urls of
        [] \<Rightarrow> (Inr (), self, w)
      | u # us \<Rightarrow>
          (let urls = (if \<not> is_dict u then remdups urls else urls)
           in gather_find_on_page find_proxies self w urls))"

text \<open>
  \<open>get_proxies\<close> awaits \<open>self._pipe()\<close> inside the client session and returns
  \<open>self.proxies\<close>; it has no handler, so an exception of \<open>_pipe\<close> is its own.
\<close>

definition Provider_get_proxies ::
  "('a provider_scheme \<Rightarrow> world \<Rightarrow> (pyerr + unit) \<times> 'a provider_scheme \<times> world) \<Rightarrow>
   'a provider_scheme \<Rightarrow> world \<Rightarrow> (pyerr + proxy_record set) \<times> 'a provider_scheme \<times> world" where
  "Provider_get_proxies u_pipe self w =
     (case u_pipe self w of
        (Inl e, self, w) \<Rightarrow> (Inl e, self, w)
      | (Inr done, self, w) \<Rightarrow> (Inr (proxies self), self, w))"

text \<open>
  \<open>Provider.find_proxies\<close> is \<open>self._pattern.findall(page)\<close>, with the pattern
  \<open>IPPortPatternGlobal\<close> of \<open>utils\<close> as a parameter.
\<close>

definition Provider_find_proxies ::
  "(string \<Rightarrow> candidate list) \<Rightarrow> 'a provider_scheme \<Rightarrow> string \<Rightarrow>
   (pyerr + candidate list) \<times> 'a provider_scheme" where
  "Provider_find_proxies pattern_findall self page = (Inr (pattern_findall page), self)"

section \<open>\<open>Webanetlabs_net._pipe\<close>\<close>

text \<open>
  \<^verbatim>\<open>re.findall(r'''href\s*=\s*['"]([^'"]*proxylist2022[^'"]*)['"]''', page)\<close>.
  After \<open>href\<close>, blanks, \<open>=\<close>, blanks and an opening quote, the group is the whole run of
  characters up to the next quote of either kind: the run must contain
  \<open>proxylist2022\<close> and the closing quote must be there. \<open>\s\<close> below code point 256 is
  \<open>\<^verbatim>\<open>0x09-0x0D 0x1C-0x20 0x85 0xA0\<close>\<close>.
\<close>

definition is_space :: "char \<Rightarrow> bool" where
  "is_space c = (in_range c 0x09 0x0D \<or> in_range c 0x1C 0x20 \<or> c = CHR 0x85 \<or> c = CHR 0xA0)"

definition is_quote :: "char \<Rightarrow> bool" where
  "is_quote c = (c = CHR 0x27 \<or> c = CHR 0x22)"

definition not_quote :: "char \<Rightarrow> bool" where
  "not_quote c = (\<not> is_quote c)"

fun contains :: "string \<Rightarrow> string \<Rightarrow> bool" where
  "contains lit [] = (lit = [])"
| "contains lit (c # cs) = (take (length lit) (c # cs) = lit \<or> contains lit cs)"

definition match_webanetlabs_exp :: "string \<Rightarrow> (string \<times> string) option" where
  "match_webanetlabs_exp s =
     (if take 4 s = ''href'' then
        (case dropWhile is_space (drop 4 s) of
           [] \<Rightarrow> None
         | e # s1 \<Rightarrow>
             if e = CHR ''='' then
               (case dropWhile is_space s1 of
                  [] \<Rightarrow> None
                | q # s2 \<Rightarrow>
                    if is_quote q then
                      (let path = takeWhile not_quote s2
                       in if contains ''proxylist2022'' path then
                            (case dropWhile not_quote s2 of
                               [] \<Rightarrow> None
                             | q2 # rest \<Rightarrow> Some (path, rest))
                          else None)
                    else None)
             else None)
      else None)"

lemma match_webanetlabs_exp_shorter:
  "match_webanetlabs_exp s = Some (path, rest) \<Longrightarrow> length rest < length s"
proof -
  assume m: "match_webanetlabs_exp s = Some (path, rest)"
  from m obtain e s1 where d1: "dropWhile is_space (drop 4 s) = e # s1"
    by (auto simp: match_webanetlabs_exp_def split: if_splits list.splits)
  from m d1 obtain q s2 where d2: "dropWhile is_space s1 = q # s2"
    by (auto simp: match_webanetlabs_exp_def split: if_splits list.splits)
  from m d1 d2 obtain q2 where d3: "dropWhile not_quote s2 = q2 # rest"
    by (auto simp: match_webanetlabs_exp_def Let_def split: if_splits list.splits)
  have "length rest < length (dropWhile not_quote s2)" using d3 by simp
  also have "\<dots> \<le> length s2" by (rule length_dropWhile_le)
  also have "\<dots> < length (dropWhile is_space s1)" using d2 by simp
  also have "\<dots> \<le> length s1" by (rule length_dropWhile_le)
  also have "\<dots> < length (dropWhile is_space (drop 4 s))" using d1 by simp
  also have "\<dots> \<le> length (drop 4 s)" by (rule length_dropWhile_le)
  also have "\<dots> \<le> length s" by simp
  finally show ?thesis .
qed

function findall_webanetlabs_exp :: "string \<Rightarrow> string list" where
  "findall_webanetlabs_exp [] = []"
| "findall_webanetlabs_exp (c # cs) =
     (case match_webanetlabs_exp (c # cs) of
        Some (path, rest) \<Rightarrow> path # findall_webanetlabs_exp rest
      | None \<Rightarrow> findall_webanetlabs_exp cs)"
  by pat_completeness auto
termination
  by (relation "measure length") (auto dest: match_webanetlabs_exp_shorter)

definition Webanetlabs_net_u_pipe ::
  "(string \<Rightarrow> candidate list) \<Rightarrow> 'a provider_scheme \<Rightarrow> world \<Rightarrow>
   (pyerr + unit) \<times> 'a provider_scheme \<times> world" where
  "Webanetlabs_net_u_pipe pattern_findall self w =
     (case Provider_get self w
             \<lparr>meth = ''GET'', url = ''https://webanetlabs.net/publ/24'', data = []\<rparr> of
        (Inl e, w) \<Rightarrow> (Inl e, self, w)
      | (Inr page, w) \<Rightarrow>
          if page = [] then (Inr (), self, w)
          else
            (let urls = [Url (''https://webanetlabs.net'' @ path).
                           path \<leftarrow> findall_webanetlabs_exp page]
             in Provider_u_find_on_pages (Provider_find_proxies pattern_findall) self w urls))"

section \<open>\<open>Spys_ru._pipe\<close>\<close>

text \<open>
  \<^verbatim>\<open>re.findall(r"'([a-z0-9]{32})'", page)\<close>: a single quote, exactly 32 lower-case
  letters or digits, a single quote. \<open>_pipe\<close> takes element \<open>[0]\<close> of the result, which
  raises \<open>IndexError\<close> when there is no match. The form data of the two POST requests
  are \<open>xx0\<close> (the session id), \<open>xpp\<close> (5) and \<open>xf1\<close> (3, then 4); the integers are
  written as decimal strings.
\<close>

definition match_expSession :: "string \<Rightarrow> (string \<times> string) option" where
  "match_expSession s =
     (case s of
        [] \<Rightarrow> None
      | q # s1 \<Rightarrow>
          if q = CHR 0x27 \<and> length (take 32 s1) = 32 \<and> list_all is_name (take 32 s1) then
            (case drop 32 s1 of
               [] \<Rightarrow> None
             | q2 # rest \<Rightarrow> if q2 = CHR 0x27 then Some (take 32 s1, rest) else None)
          else None)"

lemma match_expSession_shorter:
  "match_expSession s = Some (tok, rest) \<Longrightarrow> length rest < length s"
proof -
  assume m: "match_expSession s = Some (tok, rest)"
  from m obtain q s1 where s: "s = q # s1"
    by (cases s) (auto simp: match_expSession_def)
  from m s obtain q2 where d: "drop 32 s1 = q2 # rest"
    by (auto simp: match_expSession_def split: if_splits list.splits)
  have "length rest < length (drop 32 s1)" using d by simp
  also have "\<dots> \<le> length s1" by simp
  finally show ?thesis using s by simp
qed

function findall_expSession :: "string \<Rightarrow> string list" where
  "findall_expSession [] = []"
| "findall_expSession (c # cs) =
     (case match_expSession (c # cs) of
        Some (tok, rest) \<Rightarrow> tok # findall_expSession rest
      | None \<Rightarrow> findall_expSession cs)"
  by pat_completeness auto
termination
  by (relation "measure length") (auto dest: match_expSession_shorter)

definition Spys_ru_u_pipe ::
  "(string \<Rightarrow> candidate list) \<Rightarrow> spys_ru \<Rightarrow> world \<Rightarrow> (pyerr + unit) \<times> spys_ru \<times> world" where
  "Spys_ru_u_pipe pattern_findall self w =
     (let url = ''http://spys.one/proxies/''
      in case Provider_get self w \<lparr>meth = ''GET'', url = url, data = []\<rparr> of
           (Inl e, w) \<Rightarrow> (Inl e, self, w)
         | (Inr page, w) \<Rightarrow>
             if page = [] then (Inr (), self, w)
             else
               (case findall_expSession page of
                  [] \<Rightarrow> (Inl IndexError, self, w)
                | sessionId # others \<Rightarrow>
                    (let urls = [Kwargs \<lparr>meth = ''POST'', url = url,
                                   data = [(''xx0'', sessionId), (''xpp'', ''5''), (''xf1'', lvl)]\<rparr>.
                                 lvl \<leftarrow> [''3'', ''4'']]
                     in Provider_u_find_on_pages (Spys_ru_find_proxies pattern_findall)
                          self w urls)))"

section \<open>Properties of the result set\<close>

lemma proxies_setter_proto: "proto (proxies_setter self new) = proto self"
  by (simp add: proxies_setter_def)

lemma proxies_setter_max_tries: "max_tries (proxies_setter self new) = max_tries self"
  by (simp add: proxies_setter_def)

lemma proxies_setter_mem:
  "(h, pt, c) \<in> proxies (proxies_setter self new) \<longleftrightarrow>
     (h, pt, c) \<in> proxies self \<or> ((h, pt) \<in> set new \<and> pt \<noteq> [] \<and> c = proto self)"
  by (auto simp: proxies_setter_def)

lemma foldl_setter_proto: "proto (foldl proxies_setter self batches) = proto self"
  by (induction batches arbitrary: self) (simp_all add: proxies_setter_proto)

lemma foldl_setter_tagged:
  "\<forall>r \<in> proxies self. snd (snd r) = proto self \<Longrightarrow>
   \<forall>r \<in> proxies (foldl proxies_setter self batches). snd (snd r) = proto self"
proof (induction batches arbitrary: self)
  case Nil
  then show ?case by simp
next
  case (Cons b bs)
  have "\<forall>r \<in> proxies (proxies_setter self b). snd (snd r) = proto (proxies_setter self b)"
    using Cons.prems by (auto simp: proxies_setter_def)
  from Cons.IH [OF this] show ?case
    by (simp add: proxies_setter_proto)
qed

text \<open>
  C7. Merging a list of extracted \<open>(host, port)\<close> candidates drops every candidate whose
  port is empty, and stores every other candidate as \<open>(host, port, proto)\<close> with the
  provider's own protocol tuple; nothing else enters the result set and nothing leaves it.
\<close>

theorem proxies_setter_filters_and_tags:
  "proxies (proxies_setter self new) =
     proxies self \<union> {(h, pt, proto self) | h pt. (h, pt) \<in> set new \<and> pt \<noteq> []}"
  by (auto simp: proxies_setter_def)

theorem proxies_setter_filters_and_tags_witness:
  "proxies (proxies_setter (Provider_init [''HTTP''] 3)
      [(''10.0.0.1'', ''8080''), (''10.0.0.2'', '''')])
   = {(''10.0.0.1'', ''8080'', [''HTTP''])}"
  using proxies_setter_filters_and_tags
    [of "Provider_init [''HTTP''] 3" "[(''10.0.0.1'', ''8080''), (''10.0.0.2'', '''')]"]
  by (auto simp: Provider_init_def)

text \<open>
  C8. Starting from a freshly constructed provider, after any sequence of merges the
  result set holds no two different records with the same \<open>(host, port)\<close>.
\<close>

theorem proxies_no_duplicate_host_port:
  "\<forall>r1 \<in> proxies (foldl proxies_setter (Provider_init pr mt) batches).
   \<forall>r2 \<in> proxies (foldl proxies_setter (Provider_init pr mt) batches).
     fst r1 = fst r2 \<and> fst (snd r1) = fst (snd r2) \<longrightarrow> r1 = r2"
proof -
  have "\<forall>r \<in> proxies (Provider_init pr mt). snd (snd r) = proto (Provider_init pr mt)"
    by (simp add: Provider_init_def)
  from foldl_setter_tagged [OF this]
  have tagged: "\<forall>r \<in> proxies (foldl proxies_setter (Provider_init pr mt) batches).
      snd (snd r) = pr"
    by (simp add: Provider_init_def)
  show ?thesis
  proof (intro ballI impI)
    fix r1 r2
    assume "r1 \<in> proxies (foldl proxies_setter (Provider_init pr mt) batches)"
      and "r2 \<in> proxies (foldl proxies_setter (Provider_init pr mt) batches)"
      and eq: "fst r1 = fst r2 \<and> fst (snd r1) = fst (snd r2)"
    with tagged have "snd (snd r1) = snd (snd r2)" by simp
    with eq show "r1 = r2" by (simp add: prod_eq_iff)
  qed
qed

theorem proxies_no_duplicate_host_port_witness:
  "(''10.0.0.1'', ''80'', [''HTTP'']) \<in>
     proxies (foldl proxies_setter (Provider_init [''HTTP''] 3)
       [[(''10.0.0.1'', ''80''), (''10.0.0.1'', '''')], [(''10.0.0.1'', ''80'')]])
   \<and> (''10.0.0.1'', ''80'', [''SOCKS5'']) \<notin>
     proxies (foldl proxies_setter (Provider_init [''HTTP''] 3)
       [[(''10.0.0.1'', ''80''), (''10.0.0.1'', '''')], [(''10.0.0.1'', ''80'')]])"
proof -
  let ?S = "proxies (foldl proxies_setter (Provider_init [''HTTP''] 3)
       [[(''10.0.0.1'', ''80''), (''10.0.0.1'', '''')], [(''10.0.0.1'', ''80'')]])"
  have a: "(''10.0.0.1'', ''80'', [''HTTP'']) \<in> ?S"
    by (simp add: proxies_setter_def Provider_init_def)
  have "(''10.0.0.1'', ''80'', [''SOCKS5'']) \<notin> ?S"
  proof
    assume b: "(''10.0.0.1'', ''80'', [''SOCKS5'']) \<in> ?S"
    from proxies_no_duplicate_host_port
      [of "[''HTTP'']" 3 "[[(''10.0.0.1'', ''80''), (''10.0.0.1'', '''')], [(''10.0.0.1'', ''80'')]]"]
      a b
    have "(''10.0.0.1'', ''80'', [''HTTP'']) = (''10.0.0.1'', ''80'', [''SOCKS5''])"
      by fastforce
    then show False by simp
  qed
  with a show ?thesis by simp
qed

text \<open>
  C9. Merging the same candidate list twice in a row leaves the provider exactly as one
  merge does; in particular the result set has the same size.
\<close>

theorem proxies_setter_idempotent:
  "proxies_setter (proxies_setter self new) new = proxies_setter self new
   \<and> card (proxies (proxies_setter (proxies_setter self new) new))
       = card (proxies (proxies_setter self new))"
proof -
  have "proxies_setter (proxies_setter self new) new = proxies_setter self new"
    by (simp add: proxies_setter_def Let_def Un_assoc)
  then show ?thesis by simp
qed

section \<open>Properties of the fetch engine\<close>

lemma u_get_text:
  "fst (Provider_u_get w req) = attempt_text (next_attempt w 0)"
  by (simp add: Provider_u_get_def session_request_def attempt_text_def next_attempt_def
      split: attempt.splits)

lemma u_get_issued:
  "issued (snd (Provider_u_get w req)) = issued w @ [req]"
  by (simp add: Provider_u_get_def session_request_def log_failed_def split: attempt.splits)

lemma u_get_responses:
  "responses (snd (Provider_u_get w req)) = responses w"
  by (simp add: Provider_u_get_def session_request_def log_failed_def split: attempt.splits)

lemma u_get_next_attempt:
  "next_attempt (snd (Provider_u_get w req)) k = next_attempt w (Suc k)"
  by (simp add: next_attempt_def u_get_issued u_get_responses)

lemma get_loop_issued_le:
  "length (issued (snd (get_loop n w req pg))) \<le> length (issued w) + n"
proof (induction n arbitrary: w pg)
  case 0
  then show ?case by simp
next
  case (Suc n)
  obtain p w' where pw: "Provider_u_get w req = (p, w')" by (cases "Provider_u_get w req")
  have len: "length (issued w') = Suc (length (issued w))"
    using u_get_issued [of w req] pw by simp
  show ?case
  proof (cases "p = []")
    case True
    with pw Suc.IH [of w' "Some p"] len show ?thesis by simp
  next
    case False
    with pw len show ?thesis by simp
  qed
qed

lemma get_loop_stops_at_first_text:
  "k < n \<Longrightarrow> \<forall>j<k. attempt_text (next_attempt w j) = [] \<Longrightarrow>
   attempt_text (next_attempt w k) \<noteq> [] \<Longrightarrow>
   fst (get_loop n w req pg) = Some (attempt_text (next_attempt w k)) \<and>
   issued (snd (get_loop n w req pg)) = issued w @ replicate (Suc k) req"
proof (induction n arbitrary: w pg k)
  case 0
  then show ?case by simp
next
  case (Suc n)
  obtain p w' where pw: "Provider_u_get w req = (p, w')" by (cases "Provider_u_get w req")
  have p: "p = attempt_text (next_attempt w 0)" using u_get_text [of w req] pw by simp
  have iss: "issued w' = issued w @ [req]" using u_get_issued [of w req] pw by simp
  have nxt: "\<And>i. next_attempt w' i = next_attempt w (Suc i)"
    using u_get_next_attempt [of w req] pw by simp
  show ?case
  proof (cases k)
    case 0
    with Suc.prems p pw iss show ?thesis by simp
  next
    case (Suc k')
    with Suc.prems p have empty: "p = []" by auto
    have "k' < n" using Suc Suc.prems by simp
    moreover have "\<forall>j<k'. attempt_text (next_attempt w' j) = []"
      using Suc.prems(2) Suc nxt by auto
    moreover have "attempt_text (next_attempt w' k') \<noteq> []"
      using Suc.prems(3) Suc nxt by simp
    ultimately have "fst (get_loop n w' req (Some p)) = Some (attempt_text (next_attempt w' k')) \<and>
       issued (snd (get_loop n w' req (Some p))) = issued w' @ replicate (Suc k') req"
      by (rule Suc.IH)
    with pw empty iss nxt Suc show ?thesis
      by (simp add: replicate_app_Cons_same)
  qed
qed

lemma get_loop_exhausted:
  "\<forall>j<n. attempt_text (next_attempt w j) = [] \<Longrightarrow>
   fst (get_loop n w req pg) = (if n = 0 then pg else Some []) \<and>
   issued (snd (get_loop n w req pg)) = issued w @ replicate n req"
proof (induction n arbitrary: w pg)
  case 0
  then show ?case by simp
next
  case (Suc n)
  obtain p w' where pw: "Provider_u_get w req = (p, w')" by (cases "Provider_u_get w req")
  have p: "p = []" using u_get_text [of w req] pw Suc.prems by auto
  have iss: "issued w' = issued w @ [req]" using u_get_issued [of w req] pw by simp
  have nxt: "\<And>i. next_attempt w' i = next_attempt w (Suc i)"
    using u_get_next_attempt [of w req] pw by simp
  have "\<forall>j<n. attempt_text (next_attempt w' j) = []"
    using Suc.prems nxt by auto
  from Suc.IH [OF this, of "Some p"] pw p iss show ?case
    by (simp add: replicate_app_Cons_same)
qed

lemma get_loop_Some: "0 < n \<Longrightarrow> \<exists>p. fst (get_loop n w req pg) = Some p"
proof (induction n arbitrary: w pg)
  case 0
  then show ?case by simp
next
  case (Suc n)
  obtain p w' where pw: "Provider_u_get w req = (p, w')" by (cases "Provider_u_get w req")
  show ?case
  proof (cases "p = []")
    case False
    with pw show ?thesis by simp
  next
    case True
    show ?thesis
    proof (cases n)
      case 0
      with pw True show ?thesis by simp
    next
      case (Suc m)
      then have "0 < n" by simp
      from Suc.IH [OF this, of w' "Some p"] pw True show ?thesis by simp
    qed
  qed
qed

text \<open>
  C2. With a retry budget \<open>max_tries = n \<ge> 1\<close>, \<open>get\<close> issues at most \<open>n\<close> requests;
  it returns the text of the first attempt whose text is not empty and issues nothing
  after it; when all \<open>n\<close> attempts give empty text it returns the empty text after
  exactly \<open>n\<close> requests.
\<close>

theorem get_retries_until_first_text:
  assumes "1 \<le> max_tries self"
  shows "length (issued (snd (Provider_get self w req)))
           \<le> length (issued w) + nat (max_tries self)
    \<and> (\<forall>k. k < nat (max_tries self) \<and>
           (\<forall>j<k. attempt_text (next_attempt w j) = []) \<and>
           attempt_text (next_attempt w k) \<noteq> [] \<longrightarrow>
           fst (Provider_get self w req) = Inr (attempt_text (next_attempt w k)) \<and>
           issued (snd (Provider_get self w req)) = issued w @ replicate (Suc k) req)
    \<and> ((\<forall>j < nat (max_tries self). attempt_text (next_attempt w j) = []) \<longrightarrow>
           fst (Provider_get self w req) = Inr [] \<and>
           issued (snd (Provider_get self w req))
             = issued w @ replicate (nat (max_tries self)) req)"
proof -
  let ?n = "nat (max_tries self)"
  have pos: "0 < ?n" using assms by simp
  obtain r w' where rw: "get_loop ?n w req None = (r, w')" by (cases "get_loop ?n w req None")
  have snd_eq: "snd (Provider_get self w req) = w'"
    using rw by (simp add: Provider_get_def split: option.splits)
  have fst_eq: "\<And>p. r = Some p \<Longrightarrow> fst (Provider_get self w req) = Inr p"
    using rw by (simp add: Provider_get_def)
  have bound: "length (issued (snd (Provider_get self w req))) \<le> length (issued w) + ?n"
    using get_loop_issued_le [of ?n w req None] rw snd_eq by simp
  have early: "\<forall>k. k < ?n \<and> (\<forall>j<k. attempt_text (next_attempt w j) = []) \<and>
           attempt_text (next_attempt w k) \<noteq> [] \<longrightarrow>
           fst (Provider_get self w req) = Inr (attempt_text (next_attempt w k)) \<and>
           issued (snd (Provider_get self w req)) = issued w @ replicate (Suc k) req"
  proof (intro allI impI)
    fix k
    assume h: "k < ?n \<and> (\<forall>j<k. attempt_text (next_attempt w j) = []) \<and>
           attempt_text (next_attempt w k) \<noteq> []"
    then have "fst (get_loop ?n w req None) = Some (attempt_text (next_attempt w k)) \<and>
       issued (snd (get_loop ?n w req None)) = issued w @ replicate (Suc k) req"
      by (intro get_loop_stops_at_first_text) auto
    with rw snd_eq fst_eq
    show "fst (Provider_get self w req) = Inr (attempt_text (next_attempt w k)) \<and>
           issued (snd (Provider_get self w req)) = issued w @ replicate (Suc k) req"
      by simp
  qed
  have exhausted: "(\<forall>j < ?n. attempt_text (next_attempt w j) = []) \<longrightarrow>
           fst (Provider_get self w req) = Inr [] \<and>
           issued (snd (Provider_get self w req)) = issued w @ replicate ?n req"
  proof
    assume "\<forall>j < ?n. attempt_text (next_attempt w j) = []"
    from get_loop_exhausted [OF this, of req None] pos rw snd_eq fst_eq
    show "fst (Provider_get self w req) = Inr [] \<and>
           issued (snd (Provider_get self w req)) = issued w @ replicate ?n req"
      by simp
  qed
  from bound early exhausted show ?thesis by blast
qed

text \<open>
  The scenario of the specification: budget 3, a time-out, then a 503 with an empty
  body, then a 200 with a body. The body is returned and exactly three requests were
  issued.
\<close>

theorem get_retries_until_first_text_witness:
  "fst (Provider_get (Provider_init [''HTTP''] 3)
      \<lparr>responses = (\<lambda>k. if k = 0 then Raised NetworkError
                         else if k = 1 then Response 503 []
                         else Response 200 ''10.0.0.1:8080''),
       issued = [], failed = []\<rparr>
      \<lparr>meth = ''GET'', url = ''http://a/'', data = []\<rparr>) = Inr ''10.0.0.1:8080''
   \<and> length (issued (snd (Provider_get (Provider_init [''HTTP''] 3)
      \<lparr>responses = (\<lambda>k. if k = 0 then Raised NetworkError
                         else if k = 1 then Response 503 []
                         else Response 200 ''10.0.0.1:8080''),
       issued = [], failed = []\<rparr>
      \<lparr>meth = ''GET'', url = ''http://a/'', data = []\<rparr>))) = 3"
proof -
  let ?self = "Provider_init [''HTTP''] 3"
  let ?w = "\<lparr>responses = (\<lambda>k. if k = 0 then Raised NetworkError
                         else if k = 1 then Response 503 []
                         else Response 200 ''10.0.0.1:8080''),
       issued = [], failed = []\<rparr>"
  let ?req = "\<lparr>meth = ''GET'', url = ''http://a/'', data = []\<rparr>"
  have budget: "1 \<le> max_tries ?self" by (simp add: Provider_init_def)
  have k: "(2::nat) < nat (max_tries ?self)" by (simp add: Provider_init_def)
  have before: "\<forall>j<2. attempt_text (next_attempt ?w j) = []"
    by (auto simp: attempt_text_def next_attempt_def)
  have at: "attempt_text (next_attempt ?w 2) = ''10.0.0.1:8080''"
    by (simp add: attempt_text_def next_attempt_def)
  have nonempty: "attempt_text (next_attempt ?w 2) \<noteq> []"
    by (simp only: at) simp
  note third = get_retries_until_first_text
    [OF budget, of ?w ?req, THEN conjunct2, THEN conjunct1, rule_format, of 2]
  have "fst (Provider_get ?self ?w ?req) = Inr (attempt_text (next_attempt ?w 2)) \<and>
        issued (snd (Provider_get ?self ?w ?req)) = issued ?w @ replicate (Suc 2) ?req"
    using k before nonempty by (intro third conjI)
  then show ?thesis by (simp add: at)
qed

text \<open>
  C10. With \<open>max_tries \<ge> 1\<close> the loop body runs and \<open>get\<close> returns a string. With
  \<open>max_tries \<le> 0\<close> no request is issued and \<open>return page\<close> reads an unbound local:
  \<open>get\<close> raises instead of returning the empty text.
\<close>

theorem get_needs_positive_budget:
  "(1 \<le> max_tries self \<longrightarrow> (\<exists>page. fst (Provider_get self w req) = Inr page))
   \<and> (max_tries self \<le> 0 \<longrightarrow> Provider_get self w req = (Inl UnboundLocalError, w))"
proof (intro conjI impI)
  assume "1 \<le> max_tries self"
  then have "0 < nat (max_tries self)" by simp
  from get_loop_Some [OF this, of w req None]
  obtain p where "fst (get_loop (nat (max_tries self)) w req None) = Some p" by blast
  then have "fst (Provider_get self w req) = Inr p"
    by (cases "get_loop (nat (max_tries self)) w req None") (simp add: Provider_get_def)
  then show "\<exists>page. fst (Provider_get self w req) = Inr page" by blast
next
  assume "max_tries self \<le> 0"
  then show "Provider_get self w req = (Inl UnboundLocalError, w)"
    by (simp add: Provider_get_def)
qed

theorem get_needs_positive_budget_witness:
  "(\<exists>page. fst (Provider_get (Provider_init [] 1)
        \<lparr>responses = (\<lambda>k. Raised NetworkError), issued = [], failed = []\<rparr>
        \<lparr>meth = ''GET'', url = ''http://a/'', data = []\<rparr>) = Inr page)
   \<and> Provider_get (Provider_init [] 0)
        \<lparr>responses = (\<lambda>k. Response 200 ''10.0.0.1:8080''), issued = [], failed = []\<rparr>
        \<lparr>meth = ''GET'', url = ''http://a/'', data = []\<rparr>
      = (Inl UnboundLocalError,
         \<lparr>responses = (\<lambda>k. Response 200 ''10.0.0.1:8080''), issued = [], failed = []\<rparr>)"
proof -
  have a: "1 \<le> max_tries (Provider_init [] 1)" by (simp add: Provider_init_def)
  have b: "max_tries (Provider_init [] 0) \<le> 0" by (simp add: Provider_init_def)
  from get_needs_positive_budget
    [of "Provider_init [] 1"
        "\<lparr>responses = (\<lambda>k. Raised NetworkError), issued = [], failed = []\<rparr>"
        "\<lparr>meth = ''GET'', url = ''http://a/'', data = []\<rparr>"]
    get_needs_positive_budget
    [of "Provider_init [] 0"
        "\<lparr>responses = (\<lambda>k. Response 200 ''10.0.0.1:8080''), issued = [], failed = []\<rparr>"
        "\<lparr>meth = ''GET'', url = ''http://a/'', data = []\<rparr>"]
    a b
  show ?thesis by blast
qed

text \<open>
  C1. A response with status 404 and body \<open>Not Found\<close>: \<open>_get\<close> raises and logs
  \<open>BadStatusError\<close> for the attempt, yet returns the body, because \<open>page\<close> was assigned
  before the status was looked at and the handler does not reset it. \<open>get\<close> then takes
  the attempt for a success: it returns the body after this single request.
\<close>

theorem u_get_bad_status_keeps_body:
  "Provider_u_get
      \<lparr>responses = (\<lambda>k. Response 404 ''Not Found''), issued = [], failed = []\<rparr>
      \<lparr>meth = ''GET'', url = ''http://a/'', data = []\<rparr>
    = (''Not Found'',
       \<lparr>responses = (\<lambda>k. Response 404 ''Not Found''),
        issued = [\<lparr>meth = ''GET'', url = ''http://a/'', data = []\<rparr>],
        failed = [(\<lparr>meth = ''GET'', url = ''http://a/'', data = []\<rparr>, BadStatusError)]\<rparr>)
   \<and> Provider_get (Provider_init [] 3)
      \<lparr>responses = (\<lambda>k. Response 404 ''Not Found''), issued = [], failed = []\<rparr>
      \<lparr>meth = ''GET'', url = ''http://a/'', data = []\<rparr>
    = (Inr ''Not Found'',
       \<lparr>responses = (\<lambda>k. Response 404 ''Not Found''),
        issued = [\<lparr>meth = ''GET'', url = ''http://a/'', data = []\<rparr>],
        failed = [(\<lparr>meth = ''GET'', url = ''http://a/'', data = []\<rparr>, BadStatusError)]\<rparr>)"
proof -
  have one: "Provider_u_get
      \<lparr>responses = (\<lambda>k. Response 404 ''Not Found''), issued = [], failed = []\<rparr>
      \<lparr>meth = ''GET'', url = ''http://a/'', data = []\<rparr>
    = (''Not Found'',
       \<lparr>responses = (\<lambda>k. Response 404 ''Not Found''),
        issued = [\<lparr>meth = ''GET'', url = ''http://a/'', data = []\<rparr>],
        failed = [(\<lparr>meth = ''GET'', url = ''http://a/'', data = []\<rparr>, BadStatusError)]\<rparr>)"
    by (simp add: Provider_u_get_def session_request_def log_failed_def)
  have three: "nat (max_tries (Provider_init [] 3)) = Suc (Suc (Suc 0))"
    by (simp add: Provider_init_def)
  show ?thesis
    by (simp add: one Provider_get_def three)
qed

section \<open>Properties of the pipelines\<close>

text \<open>
  C6. When the discovery fetch of \<open>Webanetlabs_net\<close> or of \<open>Spys_ru\<close> returns the empty
  text, \<open>_pipe\<close> returns without an exception, issues no further request and leaves the
  provider as it was: \<open>get_proxies\<close> of a fresh provider returns the empty set.
\<close>

theorem empty_discovery_gives_empty_crawl:
  "(fst (Provider_get (Provider_init pr mt) w
          \<lparr>meth = ''GET'', url = ''https://webanetlabs.net/publ/24'', data = []\<rparr>) = Inr []
    \<longrightarrow> Provider_get_proxies (Webanetlabs_net_u_pipe pattern_findall) (Provider_init pr mt) w
        = (Inr {}, Provider_init pr mt,
           snd (Provider_get (Provider_init pr mt) w
             \<lparr>meth = ''GET'', url = ''https://webanetlabs.net/publ/24'', data = []\<rparr>)))
   \<and> (fst (Provider_get (Spys_ru_init pr mt) w
          \<lparr>meth = ''GET'', url = ''http://spys.one/proxies/'', data = []\<rparr>) = Inr []
    \<longrightarrow> Provider_get_proxies (Spys_ru_u_pipe pattern_findall) (Spys_ru_init pr mt) w
        = (Inr {}, Spys_ru_init pr mt,
           snd (Provider_get (Spys_ru_init pr mt) w
             \<lparr>meth = ''GET'', url = ''http://spys.one/proxies/'', data = []\<rparr>)))"
proof (intro conjI impI)
  let ?req = "\<lparr>meth = ''GET'', url = ''https://webanetlabs.net/publ/24'', data = []\<rparr>"
  assume e: "fst (Provider_get (Provider_init pr mt) w ?req) = Inr []"
  obtain r w' where g: "Provider_get (Provider_init pr mt) w ?req = (r, w')"
    by (cases "Provider_get (Provider_init pr mt) w ?req")
  with e have r: "r = Inr []" by simp
  have "Webanetlabs_net_u_pipe pattern_findall (Provider_init pr mt) w
          = (Inr (), Provider_init pr mt, w')"
    by (simp add: Webanetlabs_net_u_pipe_def g r)
  then show "Provider_get_proxies (Webanetlabs_net_u_pipe pattern_findall) (Provider_init pr mt) w
        = (Inr {}, Provider_init pr mt, snd (Provider_get (Provider_init pr mt) w ?req))"
    by (simp add: Provider_get_proxies_def g) (simp add: Provider_init_def)
next
  let ?req = "\<lparr>meth = ''GET'', url = ''http://spys.one/proxies/'', data = []\<rparr>"
  assume e: "fst (Provider_get (Spys_ru_init pr mt) w ?req) = Inr []"
  obtain r w' where g: "Provider_get (Spys_ru_init pr mt) w ?req = (r, w')"
    by (cases "Provider_get (Spys_ru_init pr mt) w ?req")
  with e have r: "r = Inr []" by simp
  have "Spys_ru_u_pipe pattern_findall (Spys_ru_init pr mt) w = (Inr (), Spys_ru_init pr mt, w')"
    by (simp add: Spys_ru_u_pipe_def g r)
  then show "Provider_get_proxies (Spys_ru_u_pipe pattern_findall) (Spys_ru_init pr mt) w
        = (Inr {}, Spys_ru_init pr mt, snd (Provider_get (Spys_ru_init pr mt) w ?req))"
    by (simp add: Provider_get_proxies_def g) (simp add: Spys_ru_init_def)
qed

text \<open>
  A world in which every attempt times out: with budget 3 both providers issue their
  numeral_3_eq_3 discovery requests and end with the empty set.
\<close>

theorem empty_discovery_gives_empty_crawl_witness:
  "fst (Provider_get_proxies (Webanetlabs_net_u_pipe (\<lambda>page. []))
          (Provider_init [''HTTP''] 3)
          \<lparr>responses = (\<lambda>k. Raised NetworkError), issued = [], failed = []\<rparr>) = Inr {}
   \<and> fst (Provider_get_proxies (Spys_ru_u_pipe (\<lambda>page. []))
          (Spys_ru_init [''HTTP''] 3)
          \<lparr>responses = (\<lambda>k. Raised NetworkError), issued = [], failed = []\<rparr>) = Inr {}"
proof -
  let ?w = "\<lparr>responses = (\<lambda>k. Raised NetworkError), issued = [], failed = []\<rparr>"
  have a: "fst (Provider_get (Provider_init [''HTTP''] 3) ?w
          \<lparr>meth = ''GET'', url = ''https://webanetlabs.net/publ/24'', data = []\<rparr>) = Inr []"
    by (simp add: Provider_get_def Provider_init_def numeral_3_eq_3 Provider_u_get_def
        session_request_def log_failed_def)
  have b: "fst (Provider_get (Spys_ru_init [''HTTP''] 3) ?w
          \<lparr>meth = ''GET'', url = ''http://spys.one/proxies/'', data = []\<rparr>) = Inr []"
    by (simp add: Provider_get_def Spys_ru_init_def numeral_3_eq_3 Provider_u_get_def
        session_request_def log_failed_def)
  note t = empty_discovery_gives_empty_crawl [of "[''HTTP'']" 3 ?w "\<lambda>page. []"]
  from t [THEN conjunct1, rule_format, OF a] t [THEN conjunct2, rule_format, OF b]
  show ?thesis by simp
qed

text \<open>
  C5. The index page of \<open>Spys_ru\<close> arrives with status 200 and a text that holds no
  quoted 32-character token. \<open>re.findall(expSession, page)[0]\<close> raises \<open>IndexError\<close>;
  nothing in \<open>_pipe\<close> or \<open>get_proxies\<close> handles it, so the exception leaves the task of
  the provider. On the same text \<open>Webanetlabs_net\<close>, which finds no link, ends with the
  empty set and no exception.
\<close>

theorem spys_pipe_raises_without_session_token:
  "fst (Spys_ru_u_pipe pattern_findall (Spys_ru_init [''HTTP''] 3)
          \<lparr>responses = (\<lambda>k. Response 200 ''<html>blocked</html>''),
           issued = [], failed = []\<rparr>) = Inl IndexError
   \<and> fst (Provider_get_proxies (Spys_ru_u_pipe pattern_findall) (Spys_ru_init [''HTTP''] 3)
          \<lparr>responses = (\<lambda>k. Response 200 ''<html>blocked</html>''),
           issued = [], failed = []\<rparr>) = Inl IndexError
   \<and> fst (Provider_get_proxies (Webanetlabs_net_u_pipe pattern_findall)
          (Provider_init [''HTTP''] 3)
          \<lparr>responses = (\<lambda>k. Response 200 ''<html>blocked</html>''),
           issued = [], failed = []\<rparr>) = Inr {}"
proof -
  let ?w = "\<lparr>responses = (\<lambda>k. Response 200 ''<html>blocked</html>''),
           issued = [], failed = []\<rparr>"
  have no_token: "findall_expSession ''<html>blocked</html>'' = []"
    by (simp add: match_expSession_def)
  have no_link: "findall_webanetlabs_exp ''<html>blocked</html>'' = []"
    by (simp add: match_webanetlabs_exp_def)
  have spys: "fst (Spys_ru_u_pipe pattern_findall (Spys_ru_init [''HTTP''] 3) ?w) = Inl IndexError"
    by (simp add: Spys_ru_u_pipe_def Provider_get_def Spys_ru_init_def numeral_3_eq_3 Provider_u_get_def
        session_request_def no_token Let_def del: findall_expSession.simps)
  have spys': "fst (Provider_get_proxies (Spys_ru_u_pipe pattern_findall)
      (Spys_ru_init [''HTTP''] 3) ?w) = Inl IndexError"
    using spys
    by (cases "Spys_ru_u_pipe pattern_findall (Spys_ru_init [''HTTP''] 3) ?w")
       (simp add: Provider_get_proxies_def)
  have web: "fst (Provider_get_proxies (Webanetlabs_net_u_pipe pattern_findall)
      (Provider_init [''HTTP''] 3) ?w) = Inr {}"
    by (simp add: Provider_get_proxies_def Webanetlabs_net_u_pipe_def Provider_get_def
        Provider_init_def numeral_3_eq_3 Provider_u_get_def session_request_def no_link
        Provider_u_find_on_pages_def del: findall_webanetlabs_exp.simps)
  from spys spys' web show ?thesis by simp
qed

section \<open>Properties of Scheme A\<close>

lemma takeWhile_stop: "\<not> P y \<Longrightarrow> takeWhile P (xs @ y # ys) = takeWhile P xs"
  by (induction xs) simp_all

lemma dropWhile_stop: "\<not> P y \<Longrightarrow> dropWhile P (xs @ y # ys) = dropWhile P xs @ y # ys"
  by (induction xs) simp_all

lemma takeWhile_all: "list_all P xs \<Longrightarrow> takeWhile P xs = xs"
  by (induction xs) simp_all

lemma dropWhile_all: "list_all P xs \<Longrightarrow> dropWhile P xs = []"
  by (induction xs) simp_all

lemma not_is_chars_paren: "\<not> is_chars CHR ''(''" "\<not> is_chars CHR '')''"
  by (simp_all add: is_chars_def is_lower_def in_range_def)

lemma match_expPortOnJS_site:
  assumes "chars \<noteq> []" and "list_all is_chars chars"
  shows "match_expPortOnJS opening (opening @ chars @ CHR '')'' # post) = Some (chars, post)"
proof -
  have t: "takeWhile is_chars (chars @ CHR '')'' # post) = chars"
    using assms(2) by (simp add: takeWhile_stop not_is_chars_paren takeWhile_all)
  have d: "dropWhile is_chars (chars @ CHR '')'' # post) = CHR '')'' # post"
    using assms(2) by (simp add: dropWhile_stop not_is_chars_paren dropWhile_all)
  show ?thesis
    using assms(1) by (simp add: match_expPortOnJS_def t d)
qed

lemma match_expPortOnJS_before_paren:
  assumes op: "opening = CHR ''('' # op'" "CHR ''('' \<notin> set op'"
    and pre: "pre \<noteq> []"
  shows "match_expPortOnJS opening (pre @ CHR ''('' # X) =
           (case match_expPortOnJS opening pre of
              None \<Rightarrow> None
            | Some (chars, rest) \<Rightarrow> Some (chars, rest @ CHR ''('' # X))"
proof (cases "length opening \<le> length pre")
  case True
  let ?s1 = "drop (length opening) pre"
  have tk: "take (length opening) (pre @ CHR ''('' # X) = take (length opening) pre"
    using True by simp
  have dr: "drop (length opening) (pre @ CHR ''('' # X) = ?s1 @ CHR ''('' # X"
    using True by simp
  have t: "takeWhile is_chars (?s1 @ CHR ''('' # X) = takeWhile is_chars ?s1"
    by (rule takeWhile_stop) (rule not_is_chars_paren)
  have d: "dropWhile is_chars (?s1 @ CHR ''('' # X) = dropWhile is_chars ?s1 @ CHR ''('' # X"
    by (rule dropWhile_stop) (rule not_is_chars_paren)
  have whole: "match_expPortOnJS opening (pre @ CHR ''('' # X) =
     (if take (length opening) pre = opening then
        (if takeWhile is_chars ?s1 \<noteq> [] then
              (case dropWhile is_chars ?s1 @ CHR ''('' # X of
                 [] \<Rightarrow> None
               | r # rest \<Rightarrow> if r = CHR '')'' then Some (takeWhile is_chars ?s1, rest) else None)
            else None)
      else None)"
    unfolding match_expPortOnJS_def tk dr t d Let_def ..
  have part: "match_expPortOnJS opening pre =
     (if take (length opening) pre = opening then
        (if takeWhile is_chars ?s1 \<noteq> [] then
              (case dropWhile is_chars ?s1 of
                 [] \<Rightarrow> None
               | r # rest \<Rightarrow> if r = CHR '')'' then Some (takeWhile is_chars ?s1, rest) else None)
            else None)
      else None)"
    unfolding match_expPortOnJS_def Let_def ..
  have gen: "(case dw @ CHR ''('' # X of
                 [] \<Rightarrow> None
               | r # rest \<Rightarrow> if r = CHR '')'' then Some (tw, rest) else None) =
             (case (case dw of
                      [] \<Rightarrow> None
                    | r # rest \<Rightarrow> if r = CHR '')'' then Some (tw, rest) else None) of
                None \<Rightarrow> None
              | Some (chars, rest) \<Rightarrow> Some (chars, rest @ CHR ''('' # X))" for dw tw
    by (cases dw) simp_all
  show ?thesis
    unfolding whole part by (simp add: gen)
next
  case False
  then have short: "length pre < length opening" by simp
  have none: "match_expPortOnJS opening pre = None"
    using short by (auto simp: match_expPortOnJS_def)
  have "take (length opening) (pre @ CHR ''('' # X) \<noteq> opening"
  proof
    assume eq: "take (length opening) (pre @ CHR ''('' # X) = opening"
    have "opening ! length pre = take (length opening) (pre @ CHR ''('' # X) ! length pre"
      by (simp only: eq)
    also have "\<dots> = (pre @ CHR ''('' # X) ! length pre"
      by (rule nth_take) (rule short)
    also have "\<dots> = CHR ''(''" by simp
    finally have at: "opening ! length pre = CHR ''(''" .
    from pre obtain k where k: "length pre = Suc k" by (cases pre) auto
    with short op(1) have "k < length op'" by simp
    then have "op' ! k \<in> set op'" by simp
    moreover have "op' ! k = CHR ''(''" using at k op(1) by simp
    ultimately show False using op(2) by simp
  qed
  then have "match_expPortOnJS opening (pre @ CHR ''('' # X) = None"
    by (simp add: match_expPortOnJS_def)
  with none show ?thesis by simp
qed

lemma sub_expPortOnJS_site:
  assumes op: "opening = CHR ''('' # op'" "CHR ''('' \<notin> set op'"
    and chars: "chars \<noteq> []" "list_all is_chars chars"
  shows "sub_expPortOnJS opening tbl (pre @ opening @ chars @ CHR '')'' # post) =
           (case sub_expPortOnJS opening tbl pre of
              Inl e \<Rightarrow> Inl e
            | Inr a \<Rightarrow>
                (case char_js_port_to_num tbl chars of
                   Inl e \<Rightarrow> Inl e
                 | Inr num \<Rightarrow>
                     (case sub_expPortOnJS opening tbl post of
                        Inl e \<Rightarrow> Inl e
                      | Inr b \<Rightarrow> Inr (a @ num @ b))))"
proof (induction pre rule: length_induct)
  case (1 pre)
  let ?site = "opening @ chars @ CHR '')'' # post"
  let ?X = "op' @ chars @ CHR '')'' # post"
  have site: "?site = CHR ''('' # ?X" using op(1) by simp
  show ?case
  proof (cases pre)
    case Nil
    have "match_expPortOnJS opening (CHR ''('' # ?X) = Some (chars, post)"
      using match_expPortOnJS_site [OF chars, of "opening" post] site by simp
    then have "sub_expPortOnJS opening tbl (CHR ''('' # ?X) =
        (case char_js_port_to_num tbl chars of
           Inl e \<Rightarrow> Inl e
         | Inr num \<Rightarrow>
             (case sub_expPortOnJS opening tbl post of
                Inl e \<Rightarrow> Inl e
              | Inr b \<Rightarrow> Inr (num @ b)))"
      by simp
    with Nil site show ?thesis by (simp split: sum.splits)
  next
    case (Cons c cs)
    have m: "match_expPortOnJS opening ((c # cs) @ CHR ''('' # ?X) =
           (case match_expPortOnJS opening (c # cs) of
              None \<Rightarrow> None
            | Some (chars, rest) \<Rightarrow> Some (chars, rest @ CHR ''('' # ?X))"
      by (rule match_expPortOnJS_before_paren [OF op]) simp
    show ?thesis
    proof (cases "match_expPortOnJS opening (c # cs)")
      case None
      have "length cs < length pre" using Cons by simp
      with "1.IH" have ih: "sub_expPortOnJS opening tbl (cs @ ?site) =
           (case sub_expPortOnJS opening tbl cs of
              Inl e \<Rightarrow> Inl e
            | Inr a \<Rightarrow>
                (case char_js_port_to_num tbl chars of
                   Inl e \<Rightarrow> Inl e
                 | Inr num \<Rightarrow>
                     (case sub_expPortOnJS opening tbl post of
                        Inl e \<Rightarrow> Inl e
                      | Inr b \<Rightarrow> Inr (a @ num @ b))))"
        by blast
      from m None have m': "match_expPortOnJS opening (c # (cs @ ?site)) = None"
        using site by simp
      have step: "sub_expPortOnJS opening tbl (c # (cs @ ?site)) =
            (case sub_expPortOnJS opening tbl (cs @ ?site) of
               Inl e \<Rightarrow> Inl e | Inr out \<Rightarrow> Inr (c # out))"
        by (simp only: sub_expPortOnJS.simps m' option.case)
      have here: "sub_expPortOnJS opening tbl (c # cs) =
            (case sub_expPortOnJS opening tbl cs of
               Inl e \<Rightarrow> Inl e | Inr out \<Rightarrow> Inr (c # out))"
        by (simp only: sub_expPortOnJS.simps None option.case)
      have "pre @ ?site = c # (cs @ ?site)" using Cons by simp
      then show ?thesis
        unfolding Cons here by (simp only: step ih) (simp split: sum.splits)
    next
      case (Some a)
      obtain ch rest where a: "a = (ch, rest)" by (cases a)
      have shorter: "length rest < length pre"
        using match_expPortOnJS_shorter [of "opening" "c # cs" ch rest] Some a Cons by simp
      with "1.IH" have ih: "sub_expPortOnJS opening tbl (rest @ ?site) =
           (case sub_expPortOnJS opening tbl rest of
              Inl e \<Rightarrow> Inl e
            | Inr a \<Rightarrow>
                (case char_js_port_to_num tbl chars of
                   Inl e \<Rightarrow> Inl e
                 | Inr num \<Rightarrow>
                     (case sub_expPortOnJS opening tbl post of
                        Inl e \<Rightarrow> Inl e
                      | Inr b \<Rightarrow> Inr (a @ num @ b))))"
        by blast
      from m Some a have m': "match_expPortOnJS opening (c # (cs @ ?site))
          = Some (ch, rest @ ?site)"
        using site by simp
      have step: "sub_expPortOnJS opening tbl (c # (cs @ ?site)) =
            (case char_js_port_to_num tbl ch of
               Inl e \<Rightarrow> Inl e
             | Inr num \<Rightarrow>
                 (case sub_expPortOnJS opening tbl (rest @ ?site) of
                    Inl e \<Rightarrow> Inl e
                  | Inr out \<Rightarrow> Inr (num @ out)))"
        by (simp only: sub_expPortOnJS.simps m' option.case prod.case)
      have here: "sub_expPortOnJS opening tbl (c # cs) =
            (case char_js_port_to_num tbl ch of
               Inl e \<Rightarrow> Inl e
             | Inr num \<Rightarrow>
                 (case sub_expPortOnJS opening tbl rest of
                    Inl e \<Rightarrow> Inl e
                  | Inr out \<Rightarrow> Inr (num @ out)))"
        using Some a by (simp only: sub_expPortOnJS.simps option.case prod.case)
      have "pre @ ?site = c # (cs @ ?site)" using Cons by simp
      then show ?thesis
        unfolding Cons here by (simp only: step ih) (simp split: sum.splits)
    qed
  qed
qed

lemma char_js_port_to_num_defined:
  "\<forall>ch \<in> set chars. ch \<noteq> CHR ''+'' \<longrightarrow> ch \<in> dom tbl \<Longrightarrow>
   char_js_port_to_num tbl chars =
     Inr (concat (map (\<lambda>ch. the (tbl ch)) (filter (\<lambda>ch. ch \<noteq> CHR ''+'') chars)))"
proof (induction chars)
  case Nil
  then show ?case by simp
next
  case (Cons a chars)
  then have ih: "char_js_port_to_num tbl chars =
     Inr (concat (map (\<lambda>ch. the (tbl ch)) (filter (\<lambda>ch. ch \<noteq> CHR ''+'') chars)))"
    by simp
  show ?case
  proof (cases "a = CHR ''+''")
    case True
    then show ?thesis using ih by simp
  next
    case False
    with Cons.prems obtain d where "tbl a = Some d" by auto
    with False ih show ?thesis by simp
  qed
qed

lemma dict_of_lookup: "dict_of kvs k = Some v \<Longrightarrow> (k, v) \<in> set kvs"
  using map_of_SomeD [of "rev kvs" k v] by (simp add: dict_of_def)

lemma findall_expCharNum_values:
  "(k, v) \<in> set (findall_expCharNum pw s) \<Longrightarrow> is_lower k \<and> (\<exists>d. v = [d] \<and> is_digit d)"
proof (induction pw s rule: findall_expCharNum.induct)
  case (1 prev_word c e d t rest)
  show ?case
  proof (cases "\<not> prev_word \<and> is_lower c \<and> e = CHR ''='' \<and> is_digit d \<and> t = CHR '';''")
    case True
    with "1.prems" have "(k, v) = (c, [d]) \<or> (k, v) \<in> set (findall_expCharNum False rest)"
      by simp
    then show ?thesis
    proof
      assume "(k, v) = (c, [d])"
      with True show ?thesis by simp
    next
      assume "(k, v) \<in> set (findall_expCharNum False rest)"
      with "1.IH"(1) [OF True] show ?thesis by simp
    qed
  next
    case False
    with "1.prems" have "(k, v) \<in> set (findall_expCharNum (is_word c) (e # d # t # rest))"
      by auto
    with "1.IH"(2) [OF False] show ?thesis by simp
  qed
qed simp_all

lemma tbl_digit:
  assumes "ch \<in> dom (dict_of (findall_expCharNum pw s))"
  shows "\<exists>d. dict_of (findall_expCharNum pw s) ch = Some [d] \<and> is_digit d"
proof -
  from assms obtain v where v: "dict_of (findall_expCharNum pw s) ch = Some v" by auto
  from dict_of_lookup [OF v] findall_expCharNum_values [of ch v pw s] v show ?thesis by auto
qed

lemma digits_of_letters:
  assumes "\<forall>ch \<in> set letters. ch \<in> dom (dict_of (findall_expCharNum pw s))"
  shows "list_all is_digit
           (concat (map (\<lambda>ch. the (dict_of (findall_expCharNum pw s) ch)) letters))
         \<and> length (concat (map (\<lambda>ch. the (dict_of (findall_expCharNum pw s) ch)) letters))
             = length letters"
  using assms
proof (induction letters)
  case Nil
  then show ?case by simp
next
  case (Cons a letters)
  from Cons.prems tbl_digit [of a pw s]
  obtain d where "dict_of (findall_expCharNum pw s) a = Some [d]" "is_digit d" by auto
  with Cons show ?case by simp
qed

text \<open>
  C4. A page with an expression site, that is the opening of the class (\<open>(""+\<close> for
  \<open>Xseo_in\<close>, \<open>(":"+\<close> for \<open>Nntime_com\<close>), a non-empty run \<open>chars\<close> of lower-case
  letters and \<open>+\<close>, and \<open>)\<close>. When every letter of the run has a definition
  \<open>letter=digit;\<close> on the page, the site is replaced by the digits of its letters, in the
  order of the letters and without the \<open>+\<close>: one decimal digit per letter. The text
  before and after the site is rewritten on its own.
\<close>

theorem scheme_A_rewrites_expression_sites:
  assumes chars: "chars \<noteq> []" "list_all is_chars chars"
    and page: "page = pre @ opening @ chars @ CHR '')'' # post"
    and tbl: "tbl = dict_of (findall_expCharNum False page)"
    and defined: "\<forall>ch \<in> set chars. ch \<noteq> CHR ''+'' \<longrightarrow> ch \<in> dom tbl"
    and pre: "sub_expPortOnJS opening tbl pre = Inr pre'"
    and post: "sub_expPortOnJS opening tbl post = Inr post'"
    and digits: "digits = concat (map (\<lambda>ch. the (tbl ch)) (filter (\<lambda>ch. ch \<noteq> CHR ''+'') chars))"
  shows \<open>(opening = ''(""+'' \<longrightarrow> Xseo_in_deobfuscate page = Inr (pre' @ digits @ post'))
    \<and> (opening = ''(":"+'' \<longrightarrow> Nntime_com_deobfuscate page = Inr (pre' @ digits @ post'))
    \<and> list_all is_digit digits
    \<and> length digits = length (filter (\<lambda>ch. ch \<noteq> CHR ''+'') chars)\<close>
proof -
  have num: "char_js_port_to_num tbl chars = Inr digits"
    unfolding digits by (rule char_js_port_to_num_defined) (rule defined)
  have rewrite: "sub_expPortOnJS opening tbl page = Inr (pre' @ digits @ post')"
    if "opening = CHR ''('' # op'" "CHR ''('' \<notin> set op'" for op'
    unfolding page by (simp add: sub_expPortOnJS_site [OF that chars] pre num post)
  have xseo: \<open>Xseo_in_deobfuscate page = Inr (pre' @ digits @ post')\<close> if o: \<open>opening = ''(""+''\<close>
  proof -
    have \<open>opening = CHR ''('' # ''""+''\<close> \<open>CHR ''('' \<notin> set ''""+''\<close> using o by simp_all
    from rewrite [OF this] show ?thesis
      unfolding Xseo_in_deobfuscate_def Let_def tbl o .
  qed
  have nntime: \<open>Nntime_com_deobfuscate page = Inr (pre' @ digits @ post')\<close> if o: \<open>opening = ''(":"+''\<close>
  proof -
    have \<open>opening = CHR ''('' # ''":"+''\<close> \<open>CHR ''('' \<notin> set ''":"+''\<close> using o by simp_all
    from rewrite [OF this] show ?thesis
      unfolding Nntime_com_deobfuscate_def Let_def tbl o .
  qed
  have "\<forall>ch \<in> set (filter (\<lambda>ch. ch \<noteq> CHR ''+'') chars).
          ch \<in> dom (dict_of (findall_expCharNum False page))"
    using defined tbl by simp
  from digits_of_letters [OF this]
  have "list_all is_digit digits \<and> length digits = length (filter (\<lambda>ch. ch \<noteq> CHR ''+'') chars)"
    unfolding digits tbl .
  with xseo nntime show ?thesis by blast
qed

text \<open>
  The example of the specification, for both classes: with \<open>a=1;b=2;c=3;\<close> on the page
  the site built from \<open>a+b+c\<close> becomes \<open>123\<close>.
\<close>

theorem scheme_A_rewrites_expression_sites_witness:
  \<open>Xseo_in_deobfuscate ''a=1;b=2;c=3; 10.0.0.1:(""+a+b+c) x''
     = Inr ''a=1;b=2;c=3; 10.0.0.1:123 x''
   \<and> Nntime_com_deobfuscate ''a=1;b=2;c=3; 10.0.0.1 write(":"+a+b+c);''
     = Inr ''a=1;b=2;c=3; 10.0.0.1 write123;''\<close>
proof -
  have chars: "''a+b+c'' \<noteq> []" "list_all is_chars ''a+b+c''"
    by (simp_all add: is_chars_def is_lower_def in_range_def)
  have tx: \<open>dict_of (findall_expCharNum False ''a=1;b=2;c=3; 10.0.0.1:(""+a+b+c) x'')
      = [CHR ''a'' \<mapsto> ''1'', CHR ''b'' \<mapsto> ''2'', CHR ''c'' \<mapsto> ''3'']\<close>
    by (simp add: dict_of_def is_lower_def is_digit_def is_word_def in_range_def)
  have tn: \<open>dict_of (findall_expCharNum False ''a=1;b=2;c=3; 10.0.0.1 write(":"+a+b+c);'')
      = [CHR ''a'' \<mapsto> ''1'', CHR ''b'' \<mapsto> ''2'', CHR ''c'' \<mapsto> ''3'']\<close>
    by (simp add: dict_of_def is_lower_def is_digit_def is_word_def in_range_def)
  let ?tbl = "[CHR ''a'' \<mapsto> ''1'', CHR ''b'' \<mapsto> ''2'', CHR ''c'' \<mapsto> ''3'']"
  have defined: "\<forall>ch \<in> set ''a+b+c''. ch \<noteq> CHR ''+'' \<longrightarrow> ch \<in> dom ?tbl"
    by simp
  have digits: "''123'' = concat (map (\<lambda>ch. the (?tbl ch)) (filter (\<lambda>ch. ch \<noteq> CHR ''+'') ''a+b+c''))"
    by simp
  have prex: \<open>sub_expPortOnJS ''(""+'' ?tbl ''a=1;b=2;c=3; 10.0.0.1:'' = Inr ''a=1;b=2;c=3; 10.0.0.1:''\<close>
    by (simp add: match_expPortOnJS_def)
  have postx: \<open>sub_expPortOnJS ''(""+'' ?tbl '' x'' = Inr '' x''\<close>
    by (simp add: match_expPortOnJS_def)
  have pren: \<open>sub_expPortOnJS ''(":"+'' ?tbl ''a=1;b=2;c=3; 10.0.0.1 write''
      = Inr ''a=1;b=2;c=3; 10.0.0.1 write''\<close>
    by (simp add: match_expPortOnJS_def)
  have postn: \<open>sub_expPortOnJS ''(":"+'' ?tbl '';'' = Inr '';''\<close>
    by (simp add: match_expPortOnJS_def)
  have pagex: \<open>''a=1;b=2;c=3; 10.0.0.1:(""+a+b+c) x''
      = ''a=1;b=2;c=3; 10.0.0.1:'' @ ''(""+'' @ ''a+b+c'' @ CHR '')'' # '' x''\<close>
    by simp
  have pagen: \<open>''a=1;b=2;c=3; 10.0.0.1 write(":"+a+b+c);''
      = ''a=1;b=2;c=3; 10.0.0.1 write'' @ ''(":"+'' @ ''a+b+c'' @ CHR '')'' # '';''\<close>
    by simp
  from scheme_A_rewrites_expression_sites
    [OF chars pagex tx [symmetric] defined prex postx digits]
  have x: \<open>Xseo_in_deobfuscate ''a=1;b=2;c=3; 10.0.0.1:(""+a+b+c) x''
     = Inr (''a=1;b=2;c=3; 10.0.0.1:'' @ ''123'' @ '' x'')\<close>
    by blast
  from scheme_A_rewrites_expression_sites
    [OF chars pagen tn [symmetric] defined pren postn digits]
  have n: \<open>Nntime_com_deobfuscate ''a=1;b=2;c=3; 10.0.0.1 write(":"+a+b+c);''
     = Inr (''a=1;b=2;c=3; 10.0.0.1 write'' @ ''123'' @ '';'')\<close>
    by blast
  from x n show ?thesis by simp
qed

section \<open>Properties of Scheme B\<close>

lemma py_split_single: "sep \<notin> set s \<Longrightarrow> py_split sep s = [s]"
  by (induction s) auto

lemma py_split_append:
  "sep \<notin> set a \<Longrightarrow> py_split sep (a @ sep # b) = a # py_split sep b"
proof (induction a)
  case Nil
  then show ?case by simp
next
  case (Cons c a)
  then have "py_split sep (a @ sep # b) = a # py_split sep b" and "c \<noteq> sep" by auto
  then show ?case by simp
qed

lemma is_name_not_special:
  "is_name c \<Longrightarrow> c \<noteq> CHR ''^'' \<and> c \<noteq> CHR ''+'' \<and> c \<noteq> CHR ''('' \<and> c \<noteq> CHR '')''"
  by (auto simp: is_name_def is_lower_def is_digit_def in_range_def)

lemma names_not_special:
  "list_all is_name s \<Longrightarrow>
     CHR ''^'' \<notin> set s \<and> CHR ''+'' \<notin> set s \<and> CHR ''('' \<notin> set s \<and> CHR '')'' \<notin> set s"
  using is_name_not_special by (auto simp: list_all_iff)

lemma is_digit_is_name: "is_digit c \<Longrightarrow> is_name c"
  by (simp add: is_name_def)

lemma py_int_digits: "py_int s = Inr n \<Longrightarrow> s \<noteq> [] \<and> list_all is_digit s"
  by (auto simp: py_int_def split: if_splits)

lemma digits_are_names: "list_all is_digit s \<Longrightarrow> list_all is_name s"
  using is_digit_is_name by (auto simp: list_all_iff)

lemma resolve_tokens_append:
  "resolve_tokens tbl (defs1 @ defs2) =
     (case resolve_tokens tbl defs1 of
        (Inl e, t) \<Rightarrow> (Inl e, t)
      | (Inr u, t) \<Rightarrow> resolve_tokens t defs2)"
proof (induction tbl defs1 rule: resolve_tokens.induct)
  case (1 tbl)
  then show ?case by simp
next
  case (2 tbl char num res)
  show ?case
  proof (cases "CHR ''^'' \<in> set num")
    case True
    show ?thesis
    proof (cases "\<exists>digit tochar. py_split CHR ''^'' num = [digit, tochar]")
      case split: True
      then obtain digit tochar where s: "py_split CHR ''^'' num = [digit, tochar]" by blast
      show ?thesis
      proof (cases "py_int digit")
        case (Inl e)
        with True s show ?thesis by simp
      next
        case (Inr d)
        show ?thesis
        proof (cases "tbl tochar")
          case None
          with True s Inr show ?thesis by simp
        next
          case (Some v)
          have whole: "resolve_tokens tbl (((char, num) # res) @ defs2)
              = resolve_tokens (tbl(char \<mapsto> d XOR v)) (res @ defs2)"
            using True s Inr Some by simp
          have part: "resolve_tokens tbl ((char, num) # res)
              = resolve_tokens (tbl(char \<mapsto> d XOR v)) res"
            using True s Inr Some by simp
          show ?thesis
            unfolding whole part by (rule "2.IH"(1) [OF True s refl refl Inr Some])
        qed
      qed
    next
      case False
      with True show ?thesis
        by (auto split: list.splits)
    qed
  next
    case False
    show ?thesis
    proof (cases "py_int num")
      case (Inl e)
      with False show ?thesis by simp
    next
      case (Inr n)
      have whole: "resolve_tokens tbl (((char, num) # res) @ defs2)
          = resolve_tokens (tbl(char \<mapsto> n)) (res @ defs2)"
        using False Inr by simp
      have part: "resolve_tokens tbl ((char, num) # res) = resolve_tokens (tbl(char \<mapsto> n)) res"
        using False Inr by simp
      show ?thesis
        unfolding whole part by (rule "2.IH"(2) [OF False Inr])
    qed
  qed
qed

lemma resolve_literal:
  assumes "py_int num = Inr n"
  shows "resolve_tokens tbl [(name, num)] = (Inr (), tbl(name \<mapsto> n))"
proof -
  from py_int_digits [OF assms] have "list_all is_name num" by (simp add: digits_are_names)
  then have "CHR ''^'' \<notin> set num" by (simp add: names_not_special)
  with assms show ?thesis by simp
qed

lemma resolve_xor:
  assumes "py_int digit = Inr d" and "list_all is_name tochar" and "tbl tochar = Some v"
  shows "resolve_tokens tbl [(name, digit @ ''^'' @ tochar)] = (Inr (), tbl(name \<mapsto> d XOR v))"
proof -
  from py_int_digits [OF assms(1)] have "list_all is_name digit" by (simp add: digits_are_names)
  then have nd: "CHR ''^'' \<notin> set digit" by (simp add: names_not_special)
  have nt: "CHR ''^'' \<notin> set tochar" using assms(2) by (simp add: names_not_special)
  have "py_split CHR ''^'' (digit @ CHR ''^'' # tochar) = [digit, tochar]"
    using py_split_append [OF nd, of tochar] py_split_single [OF nt] by simp
  with assms show ?thesis by simp
qed

lemma resolve_name_operand:
  assumes "CHR ''^'' \<notin> set var1" and "\<not> list_all is_digit var1"
  shows "fst (resolve_tokens tbl [(name, var1 @ ''^'' @ tochar)]) = Inl ValueError"
proof -
  have bad: "py_int var1 = Inl ValueError" using assms(2) by (simp add: py_int_def)
  have sp: "py_split CHR ''^'' (var1 @ CHR ''^'' # tochar) = var1 # py_split CHR ''^'' tochar"
    by (rule py_split_append [OF assms(1)])
  show ?thesis
    by (cases "py_split CHR ''^'' tochar") (auto simp: sp bad split: list.splits)
qed

lemma dropWhile_keep: "xs \<noteq> [] \<Longrightarrow> \<not> P (hd xs) \<Longrightarrow> dropWhile P xs = xs"
  by (cases xs) simp_all

lemma py_strip_parens:
  assumes "list_all is_name var1" and "list_all is_name var2"
  shows "py_strip ''()'' (CHR ''('' # var1 @ CHR ''^'' # var2 @ '')'') = var1 @ CHR ''^'' # var2"
proof -
  let ?P = "\<lambda>c. c \<in> set ''()''"
  have n1: "\<forall>c \<in> set var1. \<not> ?P c" using assms(1) is_name_not_special
    by (auto simp: list_all_iff)
  have n2: "\<forall>c \<in> set var2. \<not> ?P c" using assms(2) is_name_not_special
    by (auto simp: list_all_iff)
  have h1: "\<not> ?P (hd (var1 @ CHR ''^'' # var2 @ '')''))"
    using n1 by (cases var1) auto
  have front: "dropWhile ?P (CHR ''('' # var1 @ CHR ''^'' # var2 @ '')'') = var1 @ CHR ''^'' # var2 @ '')''"
    using dropWhile_keep [of "var1 @ CHR ''^'' # var2 @ '')''" ?P] h1 by simp
  have h2: "\<not> ?P (hd (rev var2 @ CHR ''^'' # rev var1))"
  proof (cases "rev var2")
    case Nil
    then show ?thesis by simp
  next
    case (Cons c cs)
    then have "c \<in> set var2" by (metis list.set_intros(1) set_rev)
    with n2 Cons show ?thesis by simp
  qed
  have tail_end: "dropWhile ?P (rev (var1 @ CHR ''^'' # var2 @ '')'')) = rev var2 @ CHR ''^'' # rev var1"
    using dropWhile_keep [of "rev var2 @ CHR ''^'' # rev var1" ?P] h2 by simp
  show ?thesis
    unfolding py_strip_def front tail_end by simp
qed

lemma port_pair:
  assumes "list_all is_name var1" and "list_all is_name var2"
    and "tbl var1 = Some a" and "tbl var2 = Some b"
  shows "Spys_ru_char_js_port_to_num tbl (''+('' @ var1 @ ''^'' @ var2 @ '')'')
           = Inr (py_str (a XOR b))"
proof -
  let ?pair = "CHR ''('' # var1 @ CHR ''^'' # var2 @ '')''"
  have np: "CHR ''+'' \<notin> set ?pair"
    using names_not_special [OF assms(1)] names_not_special [OF assms(2)] by simp
  have sp: "py_split CHR ''+'' (CHR ''+'' # ?pair) = [[], ?pair]"
    using py_split_single [OF np] by simp
  have n1: "CHR ''^'' \<notin> set var1" using names_not_special [OF assms(1)] by simp
  have n2: "CHR ''^'' \<notin> set var2" using names_not_special [OF assms(2)] by simp
  have sx: "py_split CHR ''^'' (var1 @ CHR ''^'' # var2) = [var1, var2]"
    using py_split_append [OF n1, of var2] py_split_single [OF n2] by simp
  have "Spys_ru_char_js_port_to_num tbl (CHR ''+'' # ?pair) = Inr (py_str (a XOR b))"
    unfolding Spys_ru_char_js_port_to_num_def Let_def sp
    using assms(3,4) by (simp add: py_strip_parens [OF assms(1,2)] sx)
  then show ?thesis by simp
qed

text \<open>
  C3, as the code has it. The definitions are resolved in the order of the page, each on
  the dictionary the earlier ones left. A definition is a decimal number, or
  \<open>number^token\<close> with a token defined before, which gets the XOR of the number and of
  the value of the token. A definition whose left operand is not a decimal number, such
  as \<open>token^token\<close>, raises \<open>ValueError\<close>. A port expression \<open>+(var1^var2)\<close> over
  two defined tokens is replaced by the decimal string of the XOR of their values.
\<close>

theorem spys_tokens_resolved_in_order:
  "resolve_tokens tbl (defs1 @ defs2) =
     (case resolve_tokens tbl defs1 of
        (Inl e, t) \<Rightarrow> (Inl e, t)
      | (Inr u, t) \<Rightarrow> resolve_tokens t defs2)
   \<and> (py_int num = Inr n \<longrightarrow>
        resolve_tokens tbl [(name, num)] = (Inr (), tbl(name \<mapsto> n)))
   \<and> (py_int digit = Inr d \<and> list_all is_name tochar \<and> tbl tochar = Some v \<longrightarrow>
        resolve_tokens tbl [(name, digit @ ''^'' @ tochar)] = (Inr (), tbl(name \<mapsto> d XOR v)))
   \<and> (list_all is_name var1 \<and> \<not> list_all is_digit var1 \<longrightarrow>
        fst (resolve_tokens tbl [(name, var1 @ ''^'' @ tochar)]) = Inl ValueError)
   \<and> (list_all is_name var1 \<and> list_all is_name var2 \<and> tbl var1 = Some a \<and> tbl var2 = Some b \<longrightarrow>
        Spys_ru_char_js_port_to_num tbl (''+('' @ var1 @ ''^'' @ var2 @ '')'')
          = Inr (py_str (a XOR b)))"
proof (intro conjI impI)
  show "resolve_tokens tbl (defs1 @ defs2) =
     (case resolve_tokens tbl defs1 of
        (Inl e, t) \<Rightarrow> (Inl e, t)
      | (Inr u, t) \<Rightarrow> resolve_tokens t defs2)"
    by (rule resolve_tokens_append)
next
  assume "py_int num = Inr n"
  then show "resolve_tokens tbl [(name, num)] = (Inr (), tbl(name \<mapsto> n))"
    by (rule resolve_literal)
next
  assume "py_int digit = Inr d \<and> list_all is_name tochar \<and> tbl tochar = Some v"
  then show "resolve_tokens tbl [(name, digit @ ''^'' @ tochar)]
      = (Inr (), tbl(name \<mapsto> d XOR v))"
    by (intro resolve_xor) simp_all
next
  assume h: "list_all is_name var1 \<and> \<not> list_all is_digit var1"
  then have "CHR ''^'' \<notin> set var1" by (simp add: names_not_special)
  with h show "fst (resolve_tokens tbl [(name, var1 @ ''^'' @ tochar)]) = Inl ValueError"
    by (intro resolve_name_operand) simp_all
next
  assume "list_all is_name var1 \<and> list_all is_name var2 \<and> tbl var1 = Some a \<and> tbl var2 = Some b"
  then show "Spys_ru_char_js_port_to_num tbl (''+('' @ var1 @ ''^'' @ var2 @ '')'')
          = Inr (py_str (a XOR b))"
    by (intro port_pair) simp_all
qed

text \<open>
  The table \<open>aaaa=5\<close>, \<open>bbbb=3\<close>: the definition \<open>cccc=5^bbbb\<close> stores 6 for
  \<open>cccc\<close>, the definition \<open>cccc=aaaa^bbbb\<close> raises \<open>ValueError\<close>, and the port
  expression \<open>+(aaaa^bbbb)\<close> becomes \<open>6\<close>.
\<close>

theorem spys_tokens_resolved_in_order_witness:
  "resolve_tokens [''aaaa'' \<mapsto> 5, ''bbbb'' \<mapsto> 3] [(''cccc'', ''5^bbbb'')]
     = (Inr (), [''aaaa'' \<mapsto> 5, ''bbbb'' \<mapsto> 3, ''cccc'' \<mapsto> 6])
   \<and> fst (resolve_tokens [''aaaa'' \<mapsto> 5, ''bbbb'' \<mapsto> 3] [(''cccc'', ''aaaa^bbbb'')])
     = Inl ValueError
   \<and> Spys_ru_char_js_port_to_num [''aaaa'' \<mapsto> 5, ''bbbb'' \<mapsto> 3] ''+(aaaa^bbbb)''
     = Inr ''6''
   \<and> resolve_tokens Map.empty [(''aaaa'', ''5''), (''bbbb'', ''3'')]
     = (Inr (), [''aaaa'' \<mapsto> 5, ''bbbb'' \<mapsto> 3])"
proof -
  let ?tbl = "[''aaaa'' \<mapsto> 5, ''bbbb'' \<mapsto> (3::int)]"
  note t = spys_tokens_resolved_in_order
  have five: "py_int ''5'' = Inr 5" by code_simp
  have three: "py_int ''3'' = Inr 3" by code_simp
  have names: "list_all is_name ''aaaa''" "list_all is_name ''bbbb''"
    by (simp_all add: is_name_def is_lower_def in_range_def)
  have not_number: "\<not> list_all is_digit ''aaaa''"
    by (simp add: is_digit_def in_range_def)
  have a: "?tbl ''aaaa'' = Some 5" and b: "?tbl ''bbbb'' = Some 3" by simp_all
  have six: "py_str (5 XOR 3) = ''6''" by code_simp
  have x53: "(5::int) XOR 3 = 6" by simp
  have chained: "resolve_tokens ?tbl [(''cccc'', ''5'' @ ''^'' @ ''bbbb'')]
      = (Inr (), ?tbl(''cccc'' \<mapsto> 5 XOR 3))"
    using t [of ?tbl "[]" "[]" "''5''" 5 "''cccc''" "''5''" 5 "''bbbb''" 3]
      five names(2) b by blast
  have refused: "fst (resolve_tokens ?tbl [(''cccc'', ''aaaa'' @ ''^'' @ ''bbbb'')]) = Inl ValueError"
    using t [of ?tbl "[]" "[]" "''5''" 5 "''cccc''" "''5''" 5 "''bbbb''" 3 "''aaaa''"]
      names(1) not_number by blast
  have port: "Spys_ru_char_js_port_to_num ?tbl (''+('' @ ''aaaa'' @ ''^'' @ ''bbbb'' @ '')'')
      = Inr (py_str (5 XOR 3))"
    using t [of ?tbl "[]" "[]" "''5''" 5 "''cccc''" "''5''" 5 "''bbbb''" 3 "''aaaa''" "''bbbb''" 5 3]
      names a b by blast
  have first: "resolve_tokens Map.empty [(''aaaa'', ''5'')] = (Inr (), [''aaaa'' \<mapsto> 5])"
    using t [of Map.empty "[]" "[]" "''5''" 5 "''aaaa''"] five by blast
  have second: "resolve_tokens [''aaaa'' \<mapsto> 5] [(''bbbb'', ''3'')] = (Inr (), ?tbl)"
    using t [of "[''aaaa'' \<mapsto> 5]" "[]" "[]" "''3''" 3 "''bbbb''"] three by blast
  have both: "resolve_tokens Map.empty ([(''aaaa'', ''5'')] @ [(''bbbb'', ''3'')]) = (Inr (), ?tbl)"
    using t [of Map.empty "[(''aaaa'', ''5'')]" "[(''bbbb'', ''3'')]", THEN conjunct1]
    by (simp only: first second prod.case sum.case)
  have s1: "''5'' @ ''^'' @ ''bbbb'' = ''5^bbbb''"
    and s2: "''aaaa'' @ ''^'' @ ''bbbb'' = ''aaaa^bbbb''"
    and s3: "''+('' @ ''aaaa'' @ ''^'' @ ''bbbb'' @ '')'' = ''+(aaaa^bbbb)''"
    and s4: "[(''aaaa'', ''5'')] @ [(''bbbb'', ''3'')] = [(''aaaa'', ''5''), (''bbbb'', ''3'')]"
    by simp_all
  have f1: "resolve_tokens ?tbl [(''cccc'', ''5^bbbb'')] = (Inr (), ?tbl(''cccc'' \<mapsto> 6))"
    using chained unfolding s1 x53 .
  have f2: "fst (resolve_tokens ?tbl [(''cccc'', ''aaaa^bbbb'')]) = Inl ValueError"
    using refused unfolding s2 .
  have f3: "Spys_ru_char_js_port_to_num ?tbl ''+(aaaa^bbbb)'' = Inr ''6''"
    using port unfolding s3 six .
  have f4: "resolve_tokens Map.empty [(''aaaa'', ''5''), (''bbbb'', ''3'')] = (Inr (), ?tbl)"
    using both unfolding s4 .
  show ?thesis
    by (intro conjI) (fact f1, fact f2, fact f3, fact f4)
qed

text \<open>
  C3, as the specification states it, fails on the chained definition: on a page that
  defines \<open>cccc=aaaa^bbbb\<close> the page is not rewritten, \<open>find_proxies\<close> raises
  \<open>ValueError\<close> and \<open>cccc\<close> has no value.
\<close>

theorem spys_chained_tokens_counterexample:
  "fst (Spys_ru_deobfuscate Map.empty
         ''>aaaa=5;bbbb=3;cccc=aaaa^bbbb; 10.0.0.1:+(cccc^bbbb)'') = Inl ValueError
   \<and> snd (Spys_ru_deobfuscate Map.empty
         ''>aaaa=5;bbbb=3;cccc=aaaa^bbbb; 10.0.0.1:+(cccc^bbbb)'') ''cccc'' = None"
  by code_simp

text \<open>
  A whole page with the chained definition written as the code reads it: \<open>cccc\<close> is 6
  when the second port expression refers to it.
\<close>

lemma spys_page_example:
  "fst (Spys_ru_deobfuscate Map.empty
         ''>aaaa=5;bbbb=3;cccc=5^bbbb; 10.0.0.1:+(aaaa^bbbb) 10.0.0.2:+(cccc^aaaa)'')
       = Inr ''>aaaa=5;bbbb=3;cccc=5^bbbb; 10.0.0.1:6 10.0.0.2:3''"
  by code_simp

end
